theory Spec2Isabelle
  imports Complex_Main "HOL-Library.Sublist"
begin

section \<open>Data model (types.ts)\<close>

text \<open>
  \<^verbatim>\<open>SceneConcept\<close>: the optional fields of the interface are options; \<^verbatim>\<open>id\<close> is
  written \<open>id_of\<close>. JavaScript numbers that carry ids are integers, counters and
  lengths are naturals.
\<close>

record scene =
  id_of :: int
  description :: string
  category :: string
  lighting :: string
  camera :: string
  thumbnailUrl :: "string option"
  isGeneratingThumbnail :: "bool option"
  highResUrl :: "string option"
  isGeneratingHighRes :: "bool option"
  isFavorite :: "bool option"

record GenerationStats =
  totalGenerated :: nat
  batchesCompleted :: nat
  isGenerating :: bool
  startTime :: "int option"
  elapsedTime :: nat

text \<open>Truthiness of an optional boolean and of an optional string, as \<^verbatim>\<open>if (x)\<close> reads them.\<close>

definition truthy :: "bool option \<Rightarrow> bool" where
  "truthy b = (b = Some True)"

definition truthy_str :: "string option \<Rightarrow> bool" where
  "truthy_str t = (case t of None \<Rightarrow> False | Some u \<Rightarrow> u \<noteq> [])"

section \<open>Constants (constants.ts)\<close>

definition BATCH_SIZE :: nat where
  "BATCH_SIZE = 50"

definition TOTAL_GOAL :: nat where
  "TOTAL_GOAL = 1000"

definition ITEMS_PER_PAGE :: nat where
  "ITEMS_PER_PAGE = 10"

definition moods :: "string list" where
  "moods = [''peaceful'', ''dreamlike'', ''heroic'', ''enigmatic'', ''surreal'',
     ''mysterious'', ''tense'', ''melancholic'', ''awe-inspiring'', ''epic'',
     ''electric'', ''hazy'']"

definition locations :: "string list" where
  "locations = [''floating sky temple'', ''rainy city street'', ''haunted library'',
     ''crystal desert'', ''volcanic cliffs'', ''futuristic lab'',
     ''abandoned starship corridor'', ''neon-lit alley'', ''underwater reef'',
     ''desert battlefield'', ''orbital station window'', ''ancient ruins'',
     ''misty forest'', ''glowing cave'', ''stormy ocean deck'',
     ''dense jungle'', ''cosmic nebula'', ''snowy mountain pass'',
     ''holographic market'', ''bioluminescent bay'']"

definition actions :: "string list" where
  "actions = [''shielding from bright energy'', ''diving deeper into darkness'',
     ''touching ancient symbols'', ''navigating collapsing terrain'',
     ''climbing a massive structure'', ''observing distant lights'',
     ''holding a futuristic device'', ''running from unseen danger'',
     ''opening a mysterious door'', ''stepping through a portal'',
     ''approaching a towering creature'', ''floating in zero gravity'',
     ''reaching toward a glowing object'', ''emerging from thick fog'',
     ''exploring an unknown world'']"

definition styles :: "string list" where
  "styles = [''Van Gogh x Cyberpunk'', ''Klimt x Sci-Fi'', ''Rembrandt x Noir'',
     ''Synthwave x Ukiyo-e'', ''Bauhaus x Industrial'', ''Gothic x Neon'',
     ''Abstract Expressionism x Space'', ''Art Deco x Future'']"

definition lightingOptions :: "string list" where
  "lightingOptions = [''Neon'', ''Bioluminescent'', ''Volumetric'', ''Dusk'', ''Cinematic'']"

definition LOCATION_CATEGORY_MAP :: "(string \<times> string) list" where
  "LOCATION_CATEGORY_MAP = [
     (''floating sky temple'', ''Fantasy''),
     (''rainy city street'', ''Urban Life''),
     (''haunted library'', ''Horror''),
     (''crystal desert'', ''Surreal''),
     (''volcanic cliffs'', ''Adventure''),
     (''futuristic lab'', ''Sci-Fi''),
     (''abandoned starship corridor'', ''Sci-Fi''),
     (''neon-lit alley'', ''Neon''),
     (''underwater reef'', ''Underwater''),
     (''desert battlefield'', ''Military''),
     (''orbital station window'', ''Space''),
     (''ancient ruins'', ''Historical''),
     (''misty forest'', ''Nature''),
     (''glowing cave'', ''Nature''),
     (''stormy ocean deck'', ''Adventure''),
     (''dense jungle'', ''Nature''),
     (''cosmic nebula'', ''Space''),
     (''snowy mountain pass'', ''Nature''),
     (''holographic market'', ''Cyberpunk''),
     (''bioluminescent bay'', ''Neon'')]"

section \<open>Content sources (services/geminiService.ts)\<close>

subsection \<open>Remote backend: generateSceneBatch\<close>

text \<open>
  The remote service and \<^verbatim>\<open>JSON.parse\<close> are outside the program. One value of
  \<open>remote_response\<close> describes what they do on a call: \<^verbatim>\<open>generateContent\<close> throws,
  or it returns a response whose \<^verbatim>\<open>text\<close> is the first argument of \<open>Responds\<close> and on
  which \<^verbatim>\<open>JSON.parse\<close> behaves as the second argument says. The items of a parsed array
  are scenes whose id is still to be assigned (the spread copies every field of the
  item and \<^verbatim>\<open>id\<close> is written last).
\<close>

datatype js_error = ApiKeyMissing | RemoteFailure | SyntaxError | TypeError

datatype json_parse = ParseThrows | ParsedNotArray | ParsedArray "scene list"

datatype remote_response = GenerateContentThrows | Responds "string option" json_parse

definition number_items :: "int \<Rightarrow> scene list \<Rightarrow> scene list" where
  "number_items startId parsedData =
     map (\<lambda>(index, item). item\<lparr>id_of := startId + int index\<rparr>) (enumerate 0 parsedData)"

fun generateSceneBatch :: "bool \<Rightarrow> int \<Rightarrow> nat \<Rightarrow> remote_response \<Rightarrow> js_error + scene list" where
  "generateSceneBatch apiKey startId count response =
     (if \<not> apiKey then Inl ApiKeyMissing
      else case response of
        GenerateContentThrows \<Rightarrow> Inl RemoteFailure
      | Responds rawText parsed \<Rightarrow>
          (if \<not> truthy_str rawText then Inr []
           else case parsed of
             ParseThrows \<Rightarrow> Inl SyntaxError
           | ParsedNotArray \<Rightarrow> Inl TypeError
           | ParsedArray parsedData \<Rightarrow> Inr (number_items startId parsedData)))"

subsection \<open>Local backend: generateCuratedBatch\<close>

text \<open>
  \<^verbatim>\<open>Math.floor(Math.random() * n)\<close> is an index in \<open>0..n-1\<close>. The random source is a
  function giving the value behind the k-th call of \<^verbatim>\<open>Math.random\<close>; iteration \<open>i\<close> makes
  the calls \<open>5i .. 5i+4\<close> (mood, location, action, style, lighting).
\<close>

definition randomIndex :: "(nat \<Rightarrow> nat) \<Rightarrow> nat \<Rightarrow> nat \<Rightarrow> nat" where
  "randomIndex rnd k n = rnd k mod n"

definition pick :: "(nat \<Rightarrow> nat) \<Rightarrow> nat \<Rightarrow> string list \<Rightarrow> string" where
  "pick rnd k xs = xs ! randomIndex rnd k (length xs)"

text \<open>The template literal's number-to-string conversion, for integers.\<close>

function string_of_nat :: "nat \<Rightarrow> string" where
  "string_of_nat n =
     (if n < 10 then [''0123456789'' ! n]
      else string_of_nat (n div 10) @ [''0123456789'' ! (n mod 10)])"
  by pat_completeness auto
termination
  by (relation "measure (\<lambda>n. n)") auto

declare string_of_nat.simps [simp del]

definition string_of_int :: "int \<Rightarrow> string" where
  "string_of_int i = (if i < 0 then ''-'' @ string_of_nat (nat (- i)) else string_of_nat (nat i))"

definition placeholderUrl :: "int \<Rightarrow> string" where
  "placeholderUrl seed = ''https://picsum.photos/seed/'' @ string_of_int seed @ ''/400/225''"

text \<open>\<^verbatim>\<open>LOCATION_CATEGORY_MAP[location] || 'General'\<close>: a missing or empty entry falls back.\<close>

definition categoryFor :: "string \<Rightarrow> string" where
  "categoryFor location =
     (case map_of LOCATION_CATEGORY_MAP location of
        None \<Rightarrow> ''General''
      | Some c \<Rightarrow> if c = [] then ''General'' else c)"

definition describe :: "string \<Rightarrow> string \<Rightarrow> string \<Rightarrow> string \<Rightarrow> string" where
  "describe mood location action style =
     ''POV in a '' @ mood @ '' scene set in '' @ location @ '', '' @ action
       @ ''. Style: '' @ style @ ''.''"

text \<open>The body of the \<^verbatim>\<open>for\<close> loop: the scene pushed at iteration \<open>i\<close>.\<close>

definition curatedScene :: "(nat \<Rightarrow> nat) \<Rightarrow> int \<Rightarrow> nat \<Rightarrow> scene" where
  "curatedScene rnd startId i =
     (let mood = pick rnd (5 * i) moods;
          location = pick rnd (5 * i + 1) locations;
          action = pick rnd (5 * i + 2) actions;
          style = pick rnd (5 * i + 3) styles;
          seed = startId + int i
      in \<lparr> id_of = startId + int i,
           description = describe mood location action style,
           category = categoryFor location,
           lighting = pick rnd (5 * i + 4) lightingOptions,
           camera = ''First-Person POV'',
           thumbnailUrl = Some (placeholderUrl seed),
           isGeneratingThumbnail = None,
           highResUrl = None,
           isGeneratingHighRes = None,
           isFavorite = None \<rparr>)"

function curatedLoop :: "(nat \<Rightarrow> nat) \<Rightarrow> int \<Rightarrow> nat \<Rightarrow> nat \<Rightarrow> scene list \<Rightarrow> scene list" where
  "curatedLoop rnd startId count i scenes =
     (if i < count then curatedLoop rnd startId count (i + 1) (scenes @ [curatedScene rnd startId i])
      else scenes)"
  by pat_completeness auto
termination
  by (relation "measure (\<lambda>(rnd, startId, count, i, scenes). count - i)") auto

declare curatedLoop.simps [simp del]

definition generateCuratedBatch :: "(nat \<Rightarrow> nat) \<Rightarrow> int \<Rightarrow> nat \<Rightarrow> scene list" where
  "generateCuratedBatch rnd startId count = curatedLoop rnd startId count 0 []"

text \<open>
  The same loop written without taking for granted that it ends: the result is \<open>None\<close>
  for a call that does not come back with a list.
\<close>

partial_function (option) curatedLoopRun ::
  "(nat \<Rightarrow> nat) \<Rightarrow> int \<Rightarrow> nat \<Rightarrow> nat \<Rightarrow> scene list \<Rightarrow> scene list option" where
  "curatedLoopRun rnd startId count i scenes =
     (if i < count
      then curatedLoopRun rnd startId count (i + 1) (scenes @ [curatedScene rnd startId i])
      else Some scenes)"

definition generateCuratedBatchRun :: "(nat \<Rightarrow> nat) \<Rightarrow> int \<Rightarrow> nat \<Rightarrow> scene list option" where
  "generateCuratedBatchRun rnd startId count = curatedLoopRun rnd startId count 0 []"

section \<open>View projection (App.tsx, pagination logic)\<close>

text \<open>
  \<^verbatim>\<open>Array.prototype.slice(start, end)\<close> with integer arguments: a negative index counts
  from the end, both are clamped to the length, and an empty range gives the empty list.
\<close>

definition slice :: "int \<Rightarrow> int \<Rightarrow> 'a list \<Rightarrow> 'a list" where
  "slice start end xs =
     (let len = int (length xs);
          k = (if start < 0 then max (len + start) 0 else min start len);
          final = (if end < 0 then max (len + end) 0 else min end len)
      in take (nat (final - k)) (drop (nat k) xs))"

definition filteredScenes :: "bool \<Rightarrow> scene list \<Rightarrow> scene list" where
  "filteredScenes showFavorites xs =
     (if showFavorites then filter (\<lambda>s. truthy (isFavorite s)) xs else xs)"

text \<open>
  \<^verbatim>\<open>Math.ceil(filteredScenes.length / ITEMS_PER_PAGE)\<close>; the quotient is taken in the
  reals (for an array length the floating-point quotient has the same ceiling).
\<close>

definition totalPages :: "bool \<Rightarrow> scene list \<Rightarrow> nat" where
  "totalPages showFavorites xs =
     nat \<lceil>real (length (filteredScenes showFavorites xs)) / real ITEMS_PER_PAGE\<rceil>"

definition displayedScenes :: "bool \<Rightarrow> int \<Rightarrow> scene list \<Rightarrow> scene list" where
  "displayedScenes showFavorites currentPage xs =
     slice ((currentPage - 1) * int ITEMS_PER_PAGE) (currentPage * int ITEMS_PER_PAGE)
       (filteredScenes showFavorites xs)"

section \<open>Collection updates (App.tsx, the setScenes updaters)\<close>

definition toggleFavorite :: "int \<Rightarrow> scene list \<Rightarrow> scene list" where
  "toggleFavorite k prev =
     map (\<lambda>s. if id_of s = k then s\<lparr>isFavorite := Some (\<not> truthy (isFavorite s))\<rparr> else s) prev"

definition setGeneratingThumbnail :: "int \<Rightarrow> bool \<Rightarrow> scene list \<Rightarrow> scene list" where
  "setGeneratingThumbnail k b prev =
     map (\<lambda>s. if id_of s = k then s\<lparr>isGeneratingThumbnail := Some b\<rparr> else s) prev"

definition setThumbnail :: "int \<Rightarrow> string \<Rightarrow> scene list \<Rightarrow> scene list" where
  "setThumbnail k imageUrl prev =
     map (\<lambda>s. if id_of s = k
               then s\<lparr>isGeneratingThumbnail := Some False, thumbnailUrl := Some imageUrl\<rparr>
               else s) prev"

definition setGeneratingHighRes :: "int \<Rightarrow> bool \<Rightarrow> scene list \<Rightarrow> scene list" where
  "setGeneratingHighRes k b prev =
     map (\<lambda>s. if id_of s = k then s\<lparr>isGeneratingHighRes := Some b\<rparr> else s) prev"

definition replaceScene :: "scene \<Rightarrow> scene list \<Rightarrow> scene list" where
  "replaceScene updatedScene prev =
     map (\<lambda>s. if id_of s = id_of updatedScene then updatedScene else s) prev"

section \<open>The application state and its handlers (App.tsx)\<close>

text \<open>
  A batch request awaiting its response keeps the arguments of the call and the
  \<^verbatim>\<open>isMounted\<close> flag of the effect closure that issued it. An image request awaiting its
  response keeps what its closure captured: id and description for a thumbnail, the
  \<^verbatim>\<open>selectedScene\<close> snapshot for a high-resolution image. \<open>batchCalls\<close> logs the arguments of
  every call of \<^verbatim>\<open>generateSceneBatch\<close>. Toasts, audio cues and focus handling do not touch
  the collection or the statistics and are left out.
\<close>

record batch_request =
  reqStartId :: int
  reqCount :: nat
  reqMounted :: bool

record app_state =
  scenes :: "scene list"
  stats :: GenerationStats
  stopRef :: bool
  selectedScene :: "scene option"
  batchInflight :: "batch_request list"
  batchCalls :: "(int \<times> nat) list"
  thumbInflight :: "(int \<times> string) list"
  highResInflight :: "scene list"

definition initial :: app_state where
  "initial = \<lparr> scenes = [],
               stats = \<lparr> totalGenerated = 0, batchesCompleted = 0, isGenerating = False,
                         startTime = None, elapsedTime = 0 \<rparr>,
               stopRef = False, selectedScene = None,
               batchInflight = [], batchCalls = [], thumbInflight = [], highResInflight = [] \<rparr>"

definition without :: "nat \<Rightarrow> 'a list \<Rightarrow> 'a list" where
  "without k xs = take k xs @ drop (Suc k) xs"

subsection \<open>The generation worker effect\<close>

text \<open>
  The effect depends on \<^verbatim>\<open>[stats.isGenerating, stats.batchesCompleted]\<close>. When they change,
  the cleanup of the previous run clears its \<^verbatim>\<open>isMounted\<close> and \<^verbatim>\<open>generateStep\<close> runs on the
  new state. \<^verbatim>\<open>generateStep\<close> changes a dependency only by clearing \<^verbatim>\<open>isGenerating\<close> at the
  goal, after which one more run returns at once.
\<close>

definition deps :: "app_state \<Rightarrow> bool \<times> nat" where
  "deps s = (isGenerating (stats s), batchesCompleted (stats s))"

definition cleanup :: "app_state \<Rightarrow> app_state" where
  "cleanup s = s\<lparr>batchInflight := map (\<lambda>r. r\<lparr>reqMounted := False\<rparr>) (batchInflight s)\<rparr>"

definition generateStep :: "app_state \<Rightarrow> app_state" where
  "generateStep s =
     (if \<not> isGenerating (stats s) \<or> stopRef s \<or> length (scenes s) \<ge> TOTAL_GOAL then
        (if length (scenes s) \<ge> TOTAL_GOAL \<and> isGenerating (stats s)
         then s\<lparr>stats := (stats s)\<lparr>isGenerating := False\<rparr>\<rparr>
         else s)
      else
        (let currentCount = length (scenes s);
             remaining = TOTAL_GOAL - currentCount;
             nextBatchSize = min BATCH_SIZE remaining
         in s\<lparr>batchInflight := batchInflight s @
                 [\<lparr>reqStartId = int currentCount + 1, reqCount = nextBatchSize, reqMounted = True\<rparr>],
               batchCalls := batchCalls s @ [(int currentCount + 1, nextBatchSize)]\<rparr>))"

definition runEffect :: "app_state \<Rightarrow> app_state \<Rightarrow> app_state" where
  "runEffect old s =
     (if deps s = deps old then s
      else (let s1 = generateStep (cleanup s)
            in if deps s1 = deps s then s1 else generateStep (cleanup s1)))"

text \<open>The continuation of \<^verbatim>\<open>generateStep\<close> after the await, for the k-th pending request.\<close>

definition batchSettled :: "nat \<Rightarrow> bool \<Rightarrow> remote_response \<Rightarrow> app_state \<Rightarrow> app_state" where
  "batchSettled k apiKey response s =
     (if k < length (batchInflight s) then
        (let r = batchInflight s ! k;
             s1 = s\<lparr>batchInflight := without k (batchInflight s)\<rparr>
         in case generateSceneBatch apiKey (reqStartId r) (reqCount r) response of
              Inr newBatch \<Rightarrow>
                if reqMounted r \<and> \<not> stopRef s
                then s1\<lparr>scenes := scenes s @ newBatch,
                        stats := (stats s)\<lparr>totalGenerated := totalGenerated (stats s) + length newBatch,
                                           batchesCompleted := batchesCompleted (stats s) + 1\<rparr>\<rparr>
                else s1
            | Inl e \<Rightarrow>
                if reqMounted r
                then s1\<lparr>stopRef := True, stats := (stats s)\<lparr>isGenerating := False\<rparr>\<rparr>
                else s1)
      else s)"

subsection \<open>Handlers\<close>

definition handleStart :: "bool \<Rightarrow> int \<Rightarrow> app_state \<Rightarrow> app_state" where
  "handleStart hasSelectedApiKey now s =
     (if \<not> hasSelectedApiKey then s
      else if length (scenes s) = 0
      then s\<lparr>stopRef := False,
             stats := (stats s)\<lparr>isGenerating := True, startTime := Some now, totalGenerated := 0,
                                batchesCompleted := 0, elapsedTime := 0\<rparr>\<rparr>
      else s\<lparr>stopRef := False, stats := (stats s)\<lparr>isGenerating := True\<rparr>\<rparr>)"

definition handleInstantLoad :: "(nat \<Rightarrow> nat) \<Rightarrow> int \<Rightarrow> app_state \<Rightarrow> app_state" where
  "handleInstantLoad rnd now s =
     (let curatedScenes = generateCuratedBatch rnd 1 TOTAL_GOAL
      in s\<lparr>stopRef := True,
            scenes := curatedScenes,
            stats := \<lparr> totalGenerated = length curatedScenes,
                       batchesCompleted = nat \<lceil>real (length curatedScenes) / real BATCH_SIZE\<rceil>,
                       isGenerating = False,
                       startTime = Some now,
                       elapsedTime = 1 \<rparr>\<rparr>)"

definition handleStop :: "app_state \<Rightarrow> app_state" where
  "handleStop s = s\<lparr>stopRef := True, stats := (stats s)\<lparr>isGenerating := False\<rparr>\<rparr>"

definition tick :: "app_state \<Rightarrow> app_state" where
  "tick s =
     (if isGenerating (stats s)
      then s\<lparr>stats := (stats s)\<lparr>elapsedTime := elapsedTime (stats s) + 1\<rparr>\<rparr>
      else s)"

definition handleToggleFavorite :: "int \<Rightarrow> app_state \<Rightarrow> app_state" where
  "handleToggleFavorite k s = s\<lparr>scenes := toggleFavorite k (scenes s)\<rparr>"

text \<open>
  The outcome of \<^verbatim>\<open>generateSceneThumbnail\<close> or \<^verbatim>\<open>generateHighQualityImage\<close>: it throws, or
  returns a data URL or \<^verbatim>\<open>null\<close>.
\<close>

datatype image_outcome = ImageThrows | ImageReturns "string option"

text \<open>
  \<^verbatim>\<open>handleGenerateImage\<close> up to its await; \<open>keyAvailable\<close> says whether a key is selected
  once the key check (and the selection dialog) is over.
\<close>

definition handleGenerateImage :: "bool \<Rightarrow> int \<Rightarrow> string \<Rightarrow> app_state \<Rightarrow> app_state" where
  "handleGenerateImage keyAvailable k descr s =
     (if \<not> keyAvailable then s
      else s\<lparr>scenes := setGeneratingThumbnail k True (scenes s),
             thumbInflight := thumbInflight s @ [(k, descr)]\<rparr>)"

definition imageSettled :: "nat \<Rightarrow> image_outcome \<Rightarrow> app_state \<Rightarrow> app_state" where
  "imageSettled n outcome s =
     (if n < length (thumbInflight s) then
        (let k = fst (thumbInflight s ! n);
             s1 = s\<lparr>thumbInflight := without n (thumbInflight s)\<rparr>
         in case outcome of
              ImageReturns (Some imageUrl) \<Rightarrow>
                if imageUrl \<noteq> [] then s1\<lparr>scenes := setThumbnail k imageUrl (scenes s)\<rparr>
                else s1\<lparr>scenes := setGeneratingThumbnail k False (scenes s)\<rparr>
            | _ \<Rightarrow> s1\<lparr>scenes := setGeneratingThumbnail k False (scenes s)\<rparr>)
      else s)"

definition openModal :: "scene \<Rightarrow> app_state \<Rightarrow> app_state" where
  "openModal sc s = s\<lparr>selectedScene := Some sc\<rparr>"

definition closeModal :: "app_state \<Rightarrow> app_state" where
  "closeModal s = s\<lparr>selectedScene := None\<rparr>"

definition handleGenerateHighRes :: "bool \<Rightarrow> app_state \<Rightarrow> app_state" where
  "handleGenerateHighRes keyAvailable s =
     (case selectedScene s of
        None \<Rightarrow> s
      | Some sel \<Rightarrow>
          if \<not> keyAvailable then s
          else s\<lparr>scenes := setGeneratingHighRes (id_of sel) True (scenes s),
                 selectedScene := Some (sel\<lparr>isGeneratingHighRes := Some True\<rparr>),
                 highResInflight := highResInflight s @ [sel]\<rparr>)"

definition highResSettled :: "nat \<Rightarrow> image_outcome \<Rightarrow> app_state \<Rightarrow> app_state" where
  "highResSettled n outcome s =
     (if n < length (highResInflight s) then
        (let sel = highResInflight s ! n;
             s1 = s\<lparr>highResInflight := without n (highResInflight s)\<rparr>;
             failed = s1\<lparr>scenes := setGeneratingHighRes (id_of sel) False (scenes s),
                         selectedScene := map_option (\<lambda>prev. prev\<lparr>isGeneratingHighRes := Some False\<rparr>)
                                            (selectedScene s)\<rparr>
         in case outcome of
              ImageReturns (Some url) \<Rightarrow>
                if url \<noteq> [] then
                  (let updatedScene = sel\<lparr>highResUrl := Some url, isGeneratingHighRes := Some False\<rparr>
                   in s1\<lparr>scenes := replaceScene updatedScene (scenes s),
                         selectedScene := Some updatedScene\<rparr>)
                else failed
            | _ \<Rightarrow> failed)
      else s)"

subsection \<open>Events\<close>

text \<open>
  Everything that happens to the application is one event: a handler called from the
  interface, a timer tick, or the settling of a pending request. After each event the
  worker effect runs if its dependencies changed.
\<close>

datatype event =
    Start bool int
  | Stop
  | InstantLoad "nat \<Rightarrow> nat" int
  | BatchSettled nat bool remote_response
  | Tick
  | ToggleFavorite int
  | GenerateImage bool int string
  | ImageSettled nat image_outcome
  | OpenModal scene
  | CloseModal
  | GenerateHighRes bool
  | HighResSettled nat image_outcome

fun handle :: "event \<Rightarrow> app_state \<Rightarrow> app_state" where
  "handle (Start hasKey now) s = handleStart hasKey now s"
| "handle Stop s = handleStop s"
| "handle (InstantLoad rnd now) s = handleInstantLoad rnd now s"
| "handle (BatchSettled k apiKey response) s = batchSettled k apiKey response s"
| "handle Tick s = tick s"
| "handle (ToggleFavorite k) s = handleToggleFavorite k s"
| "handle (GenerateImage keyAvailable k descr) s = handleGenerateImage keyAvailable k descr s"
| "handle (ImageSettled n outcome) s = imageSettled n outcome s"
| "handle (OpenModal sc) s = openModal sc s"
| "handle CloseModal s = closeModal s"
| "handle (GenerateHighRes keyAvailable) s = handleGenerateHighRes keyAvailable s"
| "handle (HighResSettled n outcome) s = highResSettled n outcome s"

definition step :: "app_state \<Rightarrow> event \<Rightarrow> app_state" where
  "step s e = runEffect s (handle e s)"

definition run :: "app_state \<Rightarrow> event list \<Rightarrow> app_state" where
  "run s es = foldl step s es"

subsection \<open>Bulk thumbnail loading\<close>

text \<open>\<^verbatim>\<open>String.prototype.includes\<close>.\<close>

fun includes_str :: "string \<Rightarrow> string \<Rightarrow> bool" where
  "includes_str [] sub = (sub = [])"
| "includes_str (c # cs) sub = (prefix sub (c # cs) \<or> includes_str cs sub)"

definition needsThumbnail :: "scene \<Rightarrow> bool" where
  "needsThumbnail sc =
     (case thumbnailUrl sc of
        None \<Rightarrow> True
      | Some u \<Rightarrow> u = [] \<or> includes_str u ''picsum'')"

text \<open>
  \<^verbatim>\<open>handleGeneratePageThumbnails\<close> of App.tsx walks the displayed scenes and awaits
  \<^verbatim>\<open>handleGenerateImage\<close> for each one that has no real thumbnail. \<open>pageTargets\<close> is the
  list it walks; the handler below is the part that runs before the first await
  suspends the loop, that is the first call.
\<close>

definition pageTargets :: "scene list \<Rightarrow> scene list" where
  "pageTargets displayed = filter needsThumbnail displayed"

definition handleGeneratePageThumbnails :: "bool \<Rightarrow> bool \<Rightarrow> int \<Rightarrow> app_state \<Rightarrow> app_state" where
  "handleGeneratePageThumbnails hasSelectedApiKey showFavorites currentPage s =
     (if \<not> hasSelectedApiKey then s
      else case pageTargets (displayedScenes showFavorites currentPage (scenes s)) of
             [] \<Rightarrow> s
           | sc # rest \<Rightarrow> handleGenerateImage True (id_of sc) (description sc) s)"

text \<open>
  The later revision of the handler filters the displayed scenes once more, leaving
  out those whose thumbnail is being generated.
\<close>

definition scenesToLoad :: "scene list \<Rightarrow> scene list" where
  "scenesToLoad displayed =
     filter (\<lambda>s. needsThumbnail s \<and> \<not> truthy (isGeneratingThumbnail s)) displayed"

section \<open>Notions used in the statements\<close>

text \<open>
  The generated content of a record: the fields no status, favourite or image update
  writes.
\<close>

definition content :: "scene \<Rightarrow> int \<times> string \<times> string \<times> string \<times> string" where
  "content sc = (id_of sc, description sc, category sc, lighting sc, camera sc)"

text \<open>The number of thumbnail requests pending for record \<open>k\<close>.\<close>

definition pendingThumbnails :: "int \<Rightarrow> app_state \<Rightarrow> nat" where
  "pendingThumbnails k s = length (filter (\<lambda>p. fst p = k) (thumbInflight s))"

text \<open>
  An event answers within its request when, if it settles a batch request successfully,
  the batch has at most the number of records that were asked for.
\<close>

definition withinRequest :: "app_state \<Rightarrow> event \<Rightarrow> bool" where
  "withinRequest s e =
     (case e of
        BatchSettled k apiKey response \<Rightarrow>
          (if k < length (batchInflight s) then
             (case generateSceneBatch apiKey (reqStartId (batchInflight s ! k))
                     (reqCount (batchInflight s ! k)) response of
                Inr newBatch \<Rightarrow> length newBatch \<le> reqCount (batchInflight s ! k)
              | Inl err \<Rightarrow> True)
           else True)
      | _ \<Rightarrow> True)"

fun allWithinRequest :: "app_state \<Rightarrow> event list \<Rightarrow> bool" where
  "allWithinRequest s [] = True"
| "allWithinRequest s (e # es) = (withinRequest s e \<and> allWithinRequest (step s e) es)"

fun isInstantLoad :: "event \<Rightarrow> bool" where
  "isInstantLoad (InstantLoad rnd now) = True"
| "isInstantLoad e = False"

fun isHighResSettled :: "event \<Rightarrow> bool" where
  "isHighResSettled (HighResSettled n outcome) = True"
| "isHighResSettled e = False"

fun isBatchSettled :: "event \<Rightarrow> bool" where
  "isBatchSettled (BatchSettled k apiKey response) = True"
| "isBatchSettled e = False"

text \<open>A mounted pending request was issued for the collection as it is now.\<close>

definition pendingCurrent :: "app_state \<Rightarrow> bool" where
  "pendingCurrent s =
     list_all (\<lambda>r. reqMounted r \<longrightarrow>
                 isGenerating (stats s) \<and>
                 reqStartId r = int (length (scenes s)) + 1 \<and>
                 reqCount r = min BATCH_SIZE (TOTAL_GOAL - length (scenes s)) \<and>
                 length (scenes s) < TOTAL_GOAL)
       (batchInflight s)"

text \<open>
  Every call of the backend so far was made at a collection size below the goal and
  asked for that size's next id and the smaller of the batch size and what is missing.
\<close>

definition callsSized :: "app_state \<Rightarrow> bool" where
  "callsSized s =
     list_all (\<lambda>c. \<exists>currentSize < TOTAL_GOAL. fst c = int currentSize + 1 \<and>
                    snd c = min BATCH_SIZE (TOTAL_GOAL - currentSize)) (batchCalls s)"

text \<open>
  The state of an uninterrupted run: not stopped, and either below the goal with
  exactly the current request pending, or at the goal and idle.
\<close>

definition looping :: "app_state \<Rightarrow> bool" where
  "looping s =
     (\<not> stopRef s \<and>
      (if length (scenes s) < TOTAL_GOAL
       then isGenerating (stats s) \<and>
            batchInflight s = [\<lparr>reqStartId = int (length (scenes s)) + 1,
                                reqCount = min BATCH_SIZE (TOTAL_GOAL - length (scenes s)),
                                reqMounted = True\<rparr>]
       else \<not> isGenerating (stats s) \<and> batchInflight s = []))"

subsection \<open>Sample inputs\<close>

text \<open>
  A scene as the remote service describes it, the text of a response holding a list
  of such scenes, and the response itself: the text, and the array \<^verbatim>\<open>JSON.parse\<close> makes
  of it.
\<close>

definition sampleItem :: scene where
  "sampleItem = \<lparr> id_of = 0,
                  description = ''Rain beads on a visor above a silent neon city'',
                  category = ''Neon'', lighting = ''Neon'', camera = ''First-Person POV'',
                  thumbnailUrl = None, isGeneratingThumbnail = None, highResUrl = None,
                  isGeneratingHighRes = None, isFavorite = None \<rparr>"

definition quoted :: "string \<Rightarrow> string" where
  "quoted t = CHR 0x22 # t @ [CHR 0x22]"

definition itemText :: "scene \<Rightarrow> string" where
  "itemText sc =
     ''{'' @ quoted ''description'' @ '':'' @ quoted (description sc) @ '',''
          @ quoted ''category'' @ '':'' @ quoted (category sc) @ '',''
          @ quoted ''lighting'' @ '':'' @ quoted (lighting sc) @ '',''
          @ quoted ''camera'' @ '':'' @ quoted (camera sc) @ ''}''"

fun joinWith :: "string \<Rightarrow> string list \<Rightarrow> string" where
  "joinWith sep [] = []"
| "joinWith sep [x] = x"
| "joinWith sep (x # y # ys) = x @ sep @ joinWith sep (y # ys)"

definition arrayText :: "scene list \<Rightarrow> string" where
  "arrayText items = ''['' @ joinWith '','' (map itemText items) @ '']''"

definition jsonResponse :: "scene list \<Rightarrow> remote_response" where
  "jsonResponse items = Responds (Some (arrayText items)) (ParsedArray items)"

section \<open>Verification\<close>

lemma length_number_items: "length (number_items a xs) = length xs"
  by (simp add: number_items_def)

lemma nth_number_items:
  "i < length xs \<Longrightarrow> number_items a xs ! i = (xs ! i)\<lparr>id_of := a + int i\<rparr>"
  by (simp add: number_items_def nth_enumerate_eq)

lemma ids_number_items: "map id_of (number_items a xs) = map (\<lambda>i. a + int i) [0..<length xs]"
  by (rule nth_equalityI) (simp_all add: length_number_items nth_number_items)

lemma curatedLoop_eq:
  "i \<le> n \<Longrightarrow> curatedLoop rnd a n i acc = acc @ map (curatedScene rnd a) [i..<n]"
proof (induction rnd a n i acc rule: curatedLoop.induct)
  case (1 rnd a n i acc)
  show ?case
  proof (cases "i < n")
    case True
    then have "curatedLoop rnd a n i acc = curatedLoop rnd a n (i + 1) (acc @ [curatedScene rnd a i])"
      by (subst curatedLoop.simps) simp
    also have "\<dots> = (acc @ [curatedScene rnd a i]) @ map (curatedScene rnd a) [i + 1..<n]"
      using True "1.IH" by simp
    also have "\<dots> = acc @ map (curatedScene rnd a) [i..<n]"
      using True by (simp add: upt_conv_Cons)
    finally show ?thesis .
  next
    case False
    with "1.prems" show ?thesis by (subst curatedLoop.simps) simp
  qed
qed

lemma generateCuratedBatch_eq:
  "generateCuratedBatch rnd a n = map (curatedScene rnd a) [0..<n]"
  by (simp add: generateCuratedBatch_def curatedLoop_eq)

lemma pick_in: "xs \<noteq> [] \<Longrightarrow> pick rnd k xs \<in> set xs"
  by (simp add: pick_def randomIndex_def)

lemma moods_ne: "moods \<noteq> []" by (simp add: moods_def)
lemma locations_ne: "locations \<noteq> []" by (simp add: locations_def)
lemma actions_ne: "actions \<noteq> []" by (simp add: actions_def)
lemma styles_ne: "styles \<noteq> []" by (simp add: styles_def)

subsection \<open>What the worker effect leaves alone\<close>

lemma scenes_generateStep [simp]: "scenes (generateStep s) = scenes s"
  by (simp add: generateStep_def Let_def)

lemma scenes_cleanup [simp]: "scenes (cleanup s) = scenes s"
  by (simp add: cleanup_def)

lemma stats_cleanup [simp]: "stats (cleanup s) = stats s"
  by (simp add: cleanup_def)

lemma stopRef_cleanup [simp]: "stopRef (cleanup s) = stopRef s"
  by (simp add: cleanup_def)

lemma batchCalls_cleanup [simp]: "batchCalls (cleanup s) = batchCalls s"
  by (simp add: cleanup_def)

lemma scenes_runEffect [simp]: "scenes (runEffect old s) = scenes s"
  by (simp add: runEffect_def Let_def)

lemma totalGenerated_generateStep [simp]:
  "totalGenerated (stats (generateStep s)) = totalGenerated (stats s)"
  by (simp add: generateStep_def Let_def)

lemma batchesCompleted_generateStep [simp]:
  "batchesCompleted (stats (generateStep s)) = batchesCompleted (stats s)"
  by (simp add: generateStep_def Let_def)

lemma stopRef_generateStep [simp]: "stopRef (generateStep s) = stopRef s"
  by (simp add: generateStep_def Let_def)

lemma totalGenerated_runEffect [simp]:
  "totalGenerated (stats (runEffect old s)) = totalGenerated (stats s)"
  by (simp add: runEffect_def Let_def)

lemma batchesCompleted_runEffect [simp]:
  "batchesCompleted (stats (runEffect old s)) = batchesCompleted (stats s)"
  by (simp add: runEffect_def Let_def)

lemma stopRef_runEffect [simp]: "stopRef (runEffect old s) = stopRef s"
  by (simp add: runEffect_def Let_def)

lemma generateStep_idle:
  "\<not> isGenerating (stats s) \<Longrightarrow> generateStep s = s"
  by (simp add: generateStep_def)

lemma runEffect_same_deps: "deps s = deps old \<Longrightarrow> runEffect old s = s"
  by (simp add: runEffect_def)

lemma run_Nil [simp]: "run s [] = s"
  by (simp add: run_def)

lemma run_Cons [simp]: "run s (e # es) = run (step s e) es"
  by (simp add: run_def)

lemma run_append [simp]: "run s (es @ fs) = run (run s es) fs"
  by (simp add: run_def)

subsection \<open>The collection updaters keep length and ids\<close>

lemma length_toggleFavorite [simp]: "length (toggleFavorite k xs) = length xs"
  by (simp add: toggleFavorite_def)

lemma length_setGeneratingThumbnail [simp]: "length (setGeneratingThumbnail k b xs) = length xs"
  by (simp add: setGeneratingThumbnail_def)

lemma length_setThumbnail [simp]: "length (setThumbnail k u xs) = length xs"
  by (simp add: setThumbnail_def)

lemma length_setGeneratingHighRes [simp]: "length (setGeneratingHighRes k b xs) = length xs"
  by (simp add: setGeneratingHighRes_def)

lemma length_replaceScene [simp]: "length (replaceScene u xs) = length xs"
  by (simp add: replaceScene_def)

lemma ids_toggleFavorite [simp]: "map id_of (toggleFavorite k xs) = map id_of xs"
  by (simp add: toggleFavorite_def)

lemma ids_setGeneratingThumbnail [simp]: "map id_of (setGeneratingThumbnail k b xs) = map id_of xs"
  by (simp add: setGeneratingThumbnail_def)

lemma ids_setThumbnail [simp]: "map id_of (setThumbnail k u xs) = map id_of xs"
  by (simp add: setThumbnail_def)

lemma ids_setGeneratingHighRes [simp]: "map id_of (setGeneratingHighRes k b xs) = map id_of xs"
  by (simp add: setGeneratingHighRes_def)

lemma ids_replaceScene [simp]: "map id_of (replaceScene u xs) = map id_of xs"
  by (simp add: replaceScene_def)

lemma content_toggleFavorite [simp]: "map content (toggleFavorite k xs) = map content xs"
  by (simp add: toggleFavorite_def content_def)

lemma content_setGeneratingThumbnail [simp]:
  "map content (setGeneratingThumbnail k b xs) = map content xs"
  by (simp add: setGeneratingThumbnail_def content_def)

lemma content_setThumbnail [simp]: "map content (setThumbnail k u xs) = map content xs"
  by (simp add: setThumbnail_def content_def)

lemma content_setGeneratingHighRes [simp]:
  "map content (setGeneratingHighRes k b xs) = map content xs"
  by (simp add: setGeneratingHighRes_def content_def)

lemma length_generateCuratedBatch [simp]: "length (generateCuratedBatch rnd a n) = n"
  by (simp add: generateCuratedBatch_eq)

subsection \<open>How each event changes the collection\<close>

lemma scenes_handle_cases:
  "scenes (handle e s) = scenes s
   \<or> (\<exists>rnd now. e = InstantLoad rnd now \<and> scenes (handle e s) = generateCuratedBatch rnd 1 TOTAL_GOAL)
   \<or> (\<exists>k apiKey response newBatch. e = BatchSettled k apiKey response \<and> k < length (batchInflight s)
        \<and> reqMounted (batchInflight s ! k) \<and> \<not> stopRef s
        \<and> generateSceneBatch apiKey (reqStartId (batchInflight s ! k)) (reqCount (batchInflight s ! k)) response = Inr newBatch
        \<and> scenes (handle e s) = scenes s @ newBatch
        \<and> totalGenerated (stats (handle e s)) = totalGenerated (stats s) + length newBatch)
   \<or> (length (scenes (handle e s)) = length (scenes s) \<and> map id_of (scenes (handle e s)) = map id_of (scenes s)
        \<and> stats (handle e s) = stats s)"
proof (cases e)
  case (BatchSettled k apiKey response)
  then show ?thesis
    by (auto simp: batchSettled_def Let_def split: sum.splits simp del: generateSceneBatch.simps)
next
  case (ImageSettled n outcome)
  then show ?thesis
    by (auto simp: imageSettled_def Let_def split: image_outcome.splits option.splits)
next
  case (HighResSettled n outcome)
  then show ?thesis
    by (auto simp: highResSettled_def Let_def split: image_outcome.splits option.splits)
qed (auto simp: handleStart_def handleStop_def handleInstantLoad_def tick_def handleToggleFavorite_def
      handleGenerateImage_def openModal_def closeModal_def handleGenerateHighRes_def Let_def
      split: option.splits)

subsection \<open>Counter and collection agree\<close>

lemma step_counter:
  assumes "totalGenerated (stats s) = length (scenes s)"
  shows "totalGenerated (stats (step s e)) = length (scenes (step s e))"
proof -
  have "totalGenerated (stats (handle e s)) = length (scenes (handle e s))"
  proof (cases e)
    case (BatchSettled k apiKey response)
    then show ?thesis using assms
      by (auto simp: batchSettled_def Let_def split: sum.splits simp del: generateSceneBatch.simps)
  next
    case (ImageSettled n outcome)
    then show ?thesis using assms
      by (auto simp: imageSettled_def Let_def split: image_outcome.splits option.splits)
  next
    case (HighResSettled n outcome)
    then show ?thesis using assms
      by (auto simp: highResSettled_def Let_def split: image_outcome.splits option.splits)
  qed (use assms in \<open>auto simp: handleStart_def handleStop_def handleInstantLoad_def tick_def
        handleToggleFavorite_def handleGenerateImage_def openModal_def closeModal_def
        handleGenerateHighRes_def Let_def split: option.splits\<close>)
  then show ?thesis by (simp add: step_def)
qed

lemma run_counter:
  "totalGenerated (stats s) = length (scenes s) \<Longrightarrow>
   totalGenerated (stats (run s es)) = length (scenes (run s es))"
  by (induction es arbitrary: s) (simp_all add: step_counter)

subsection \<open>Pending requests are current\<close>

lemma pendingCurrent_cleanup_step: "pendingCurrent (generateStep (cleanup s))"
  by (simp add: pendingCurrent_def generateStep_def cleanup_def Let_def list_all_iff)

lemma pendingCurrent_runEffect:
  "deps s \<noteq> deps old \<Longrightarrow> pendingCurrent (runEffect old s)"
  by (simp add: runEffect_def Let_def pendingCurrent_cleanup_step)

lemma set_without: "set (without k xs) \<subseteq> set xs"
  using set_take_subset [of k xs] set_drop_subset [of "Suc k" xs]
  by (auto simp: without_def)

lemma pendingCurrent_handle:
  assumes "pendingCurrent s" and "deps (handle e s) = deps s"
  shows "pendingCurrent (handle e s)"
proof (cases e)
  case (BatchSettled k apiKey response)
  show ?thesis
  proof (cases "k < length (batchInflight s)")
    case False
    then show ?thesis using assms BatchSettled by (simp add: batchSettled_def)
  next
    case True
    then have mem: "batchInflight s ! k \<in> set (batchInflight s)" by simp
    have sub: "set (without k (batchInflight s)) \<subseteq> set (batchInflight s)" by (rule set_without)
    show ?thesis using assms BatchSettled True mem sub
      by (auto simp: batchSettled_def Let_def pendingCurrent_def list_all_iff deps_def
          split: sum.splits if_splits simp del: generateSceneBatch.simps)
  qed
next
  case (ImageSettled n outcome)
  then show ?thesis using assms
    by (auto simp: imageSettled_def Let_def pendingCurrent_def split: image_outcome.splits option.splits)
next
  case (HighResSettled n outcome)
  then show ?thesis using assms
    by (auto simp: highResSettled_def Let_def pendingCurrent_def split: image_outcome.splits option.splits)
next
  case (Start hasKey now)
  then show ?thesis using assms
    by (auto simp: handleStart_def pendingCurrent_def list_all_iff deps_def)
next
  case Stop
  then show ?thesis using assms
    by (auto simp: handleStop_def pendingCurrent_def list_all_iff deps_def)
next
  case (InstantLoad rnd now)
  then show ?thesis using assms
    by (auto simp: handleInstantLoad_def pendingCurrent_def list_all_iff deps_def Let_def)
qed (use assms in \<open>auto simp: tick_def pendingCurrent_def
        handleToggleFavorite_def handleGenerateImage_def openModal_def closeModal_def
        handleGenerateHighRes_def Let_def split: option.splits\<close>)

lemma step_pendingCurrent: "pendingCurrent s \<Longrightarrow> pendingCurrent (step s e)"
  unfolding step_def
  by (cases "deps (handle e s) = deps s")
     (simp_all add: runEffect_same_deps pendingCurrent_handle pendingCurrent_runEffect)

lemma pendingCurrent_initial: "pendingCurrent initial"
  by (simp add: pendingCurrent_def initial_def)

lemma run_pendingCurrent: "pendingCurrent s \<Longrightarrow> pendingCurrent (run s es)"
  by (induction es arbitrary: s) (simp_all add: step_pendingCurrent)

subsection \<open>Ids are 1..length\<close>

lemma ids_curated: "map id_of (generateCuratedBatch rnd a n) = map (\<lambda>i. a + int i) [0..<n]"
  by (simp add: generateCuratedBatch_eq curatedScene_def Let_def)

lemma ids_append:
  "map (\<lambda>i. 1 + int i) [0..<m] @ map (\<lambda>i. int m + 1 + int i) [0..<n]
     = map (\<lambda>i. 1 + int i) [0..<m + n]"
  by (rule nth_equalityI) (auto simp: nth_append simp del: upt_Suc)

lemma ids_upto: "map (\<lambda>i. 1 + int i) [0..<n] = [1..int n]"
proof (induction n)
  case 0
  show ?case by simp
next
  case (Suc n)
  have "[1..int (Suc n)] = [1..int n] @ [int n + 1]"
    using upto_rec2 [of 1 "int n + 1"] by (simp add: add.commute)
  with Suc show ?case by simp
qed

lemma generateSceneBatch_ids:
  "generateSceneBatch apiKey a n response = Inr newBatch \<Longrightarrow>
   map id_of newBatch = map (\<lambda>i. a + int i) [0..<length newBatch]"
  by (auto simp: ids_number_items length_number_items
      split: if_splits remote_response.splits json_parse.splits)

lemma step_ids:
  assumes "pendingCurrent s"
    and "map id_of (scenes s) = map (\<lambda>i. 1 + int i) [0..<length (scenes s)]"
  shows "map id_of (scenes (step s e)) = map (\<lambda>i. 1 + int i) [0..<length (scenes (step s e))]"
proof -
  consider (same) "scenes (handle e s) = scenes s"
    | (load) rnd where "scenes (handle e s) = generateCuratedBatch rnd 1 TOTAL_GOAL"
    | (batch) k apiKey response newBatch where "k < length (batchInflight s)"
        "reqMounted (batchInflight s ! k)"
        "generateSceneBatch apiKey (reqStartId (batchInflight s ! k)) (reqCount (batchInflight s ! k)) response = Inr newBatch"
        "scenes (handle e s) = scenes s @ newBatch"
    | (upd) "length (scenes (handle e s)) = length (scenes s)"
        "map id_of (scenes (handle e s)) = map id_of (scenes s)"
    using scenes_handle_cases [of e s] by blast
  then have "map id_of (scenes (handle e s)) = map (\<lambda>i. 1 + int i) [0..<length (scenes (handle e s))]"
  proof cases
    case same
    then show ?thesis using assms by simp
  next
    case (load rnd)
    then show ?thesis by (simp add: ids_curated)
  next
    case (batch k apiKey response newBatch)
    from batch(1,2) assms(1) have "reqStartId (batchInflight s ! k) = int (length (scenes s)) + 1"
      by (auto simp: pendingCurrent_def list_all_length)
    with generateSceneBatch_ids [OF batch(3)]
    have "map id_of newBatch = map (\<lambda>i. int (length (scenes s)) + 1 + int i) [0..<length newBatch]"
      by simp
    then show ?thesis using batch(4) assms(2) by (simp add: ids_append del: upt_Suc)
  next
    case upd
    then show ?thesis using assms by simp
  qed
  then show ?thesis by (simp add: step_def)
qed

lemma run_ids:
  "pendingCurrent s \<Longrightarrow> map id_of (scenes s) = map (\<lambda>i. 1 + int i) [0..<length (scenes s)] \<Longrightarrow>
   map id_of (scenes (run s es)) = map (\<lambda>i. 1 + int i) [0..<length (scenes (run s es))]"
  by (induction es arbitrary: s) (simp_all add: step_ids step_pendingCurrent)

subsection \<open>The goal bounds the collection when answers are within the request\<close>

lemma step_bounded:
  assumes "pendingCurrent s" and "length (scenes s) \<le> TOTAL_GOAL" and "withinRequest s e"
  shows "length (scenes (step s e)) \<le> TOTAL_GOAL"
proof -
  consider (same) "scenes (handle e s) = scenes s"
    | (load) rnd where "scenes (handle e s) = generateCuratedBatch rnd 1 TOTAL_GOAL"
    | (batch) k apiKey response newBatch where "e = BatchSettled k apiKey response"
        "k < length (batchInflight s)" "reqMounted (batchInflight s ! k)"
        "generateSceneBatch apiKey (reqStartId (batchInflight s ! k)) (reqCount (batchInflight s ! k)) response = Inr newBatch"
        "scenes (handle e s) = scenes s @ newBatch"
    | (upd) "length (scenes (handle e s)) = length (scenes s)"
    using scenes_handle_cases [of e s] by blast
  then have "length (scenes (handle e s)) \<le> TOTAL_GOAL"
  proof cases
    case (batch k apiKey response newBatch)
    from batch(2,3) assms(1)
    have "reqCount (batchInflight s ! k) = min BATCH_SIZE (TOTAL_GOAL - length (scenes s))"
      by (auto simp: pendingCurrent_def list_all_length)
    moreover from assms(3) batch(1,2,4) have "length newBatch \<le> reqCount (batchInflight s ! k)"
      by (simp add: withinRequest_def del: generateSceneBatch.simps)
    ultimately have "length newBatch \<le> TOTAL_GOAL - length (scenes s)" by simp
    with assms(2) have "length (scenes s) + length newBatch \<le> TOTAL_GOAL" by arith
    then show ?thesis using batch(5) by simp
  next
    case (load rnd)
    then show ?thesis by simp
  qed (use assms in simp_all)
  then show ?thesis by (simp add: step_def)
qed

lemma run_bounded:
  "pendingCurrent s \<Longrightarrow> length (scenes s) \<le> TOTAL_GOAL \<Longrightarrow> allWithinRequest s es \<Longrightarrow>
   length (scenes (run s es)) \<le> TOTAL_GOAL"
  by (induction es arbitrary: s) (simp_all add: step_bounded step_pendingCurrent)

subsection \<open>What is asked of the backend\<close>

lemma batchCalls_handle [simp]: "batchCalls (handle e s) = batchCalls s"
proof (cases e)
  case (BatchSettled k apiKey response)
  then show ?thesis
    by (auto simp: batchSettled_def Let_def split: sum.splits simp del: generateSceneBatch.simps)
next
  case (ImageSettled n outcome)
  then show ?thesis
    by (auto simp: imageSettled_def Let_def split: image_outcome.splits option.splits)
next
  case (HighResSettled n outcome)
  then show ?thesis
    by (auto simp: highResSettled_def Let_def split: image_outcome.splits option.splits)
qed (auto simp: handleStart_def handleStop_def handleInstantLoad_def tick_def
        handleToggleFavorite_def handleGenerateImage_def openModal_def closeModal_def
        handleGenerateHighRes_def Let_def split: option.splits)

lemma callsSized_generateStep:
  "list_all P (batchCalls s) \<Longrightarrow>
   (\<And>n. n < TOTAL_GOAL \<Longrightarrow> P (int n + 1, min BATCH_SIZE (TOTAL_GOAL - n))) \<Longrightarrow>
   list_all P (batchCalls (generateStep s))"
  by (simp add: generateStep_def Let_def)

lemma step_callsSized: "callsSized s \<Longrightarrow> callsSized (step s e)"
  unfolding callsSized_def step_def runEffect_def Let_def
  by (auto intro!: callsSized_generateStep)

lemma run_callsSized: "callsSized s \<Longrightarrow> callsSized (run s es)"
  by (induction es arbitrary: s) (simp_all add: step_callsSized)

subsection \<open>The uninterrupted loop\<close>

lemma generateSceneBatch_json [simp]:
  "generateSceneBatch True a n (jsonResponse items) = Inr (number_items a items)"
  by (simp add: jsonResponse_def arrayText_def truthy_str_def)

lemma looping_start: "looping (step initial (Start True now))"
  by (simp add: step_def runEffect_def handleStart_def initial_def deps_def cleanup_def
      generateStep_def looping_def Let_def TOTAL_GOAL_def)

lemma looping_settle:
  assumes "looping s" and "length (scenes s) < TOTAL_GOAL"
  shows "looping (step s (BatchSettled 0 True (jsonResponse items)))"
    and "scenes (step s (BatchSettled 0 True (jsonResponse items)))
           = scenes s @ number_items (int (length (scenes s)) + 1) items"
  using assms
  by (simp_all add: step_def runEffect_def batchSettled_def deps_def cleanup_def without_def
      generateStep_def looping_def Let_def length_number_items del: generateSceneBatch.simps)

lemma looping_run_length:
  assumes "looping s" and "length (scenes s) + (k - 1) * length items < TOTAL_GOAL"
  shows "length (scenes (run s (replicate k (BatchSettled 0 True (jsonResponse items)))))
           = length (scenes s) + k * length items"
  using assms
proof (induction k arbitrary: s)
  case 0
  show ?case by simp
next
  case (Suc k)
  let ?e = "BatchSettled 0 True (jsonResponse items)"
  from Suc.prems have below: "length (scenes s) < TOTAL_GOAL"
    by (cases k) auto
  note st = looping_settle [OF Suc.prems(1) below, of items]
  have len: "length (scenes (step s ?e)) = length (scenes s) + length items"
    by (simp add: st(2) length_number_items)
  show ?case
  proof (cases k)
    case 0
    then show ?thesis by (simp add: len)
  next
    case (Suc j)
    with Suc.prems(2) len have "length (scenes (step s ?e)) + (k - 1) * length items < TOTAL_GOAL"
      by simp
    from Suc.IH [OF st(1) this] len show ?thesis by simp
  qed
qed

subsection \<open>After stop\<close>

lemma stopped_settle:
  assumes "stopRef s" and "\<not> isGenerating (stats s)" and "isBatchSettled e"
  shows "stopRef (step s e) \<and> stats (step s e) = stats s \<and> scenes (step s e) = scenes s
         \<and> batchCalls (step s e) = batchCalls s"
proof -
  from assms(3) obtain k apiKey response where e: "e = BatchSettled k apiKey response"
    by (cases e) auto
  have h: "stopRef (handle e s) \<and> stats (handle e s) = stats s \<and> scenes (handle e s) = scenes s"
    using assms(1,2) unfolding e
    by (auto simp: batchSettled_def Let_def split: sum.splits simp del: generateSceneBatch.simps)
  then have "deps (handle e s) = deps s" by (simp add: deps_def)
  then have "step s e = handle e s" by (simp add: step_def runEffect_same_deps)
  with h show ?thesis by simp
qed

lemma stopped_run:
  assumes "stopRef s" and "\<not> isGenerating (stats s)" and "list_all isBatchSettled es"
  shows "stats (run s es) = stats s \<and> scenes (run s es) = scenes s
         \<and> batchCalls (run s es) = batchCalls s"
  using assms
proof (induction es arbitrary: s)
  case Nil
  show ?case by simp
next
  case (Cons e es)
  from Cons.prems have st: "stopRef (step s e) \<and> stats (step s e) = stats s \<and> scenes (step s e) = scenes s
         \<and> batchCalls (step s e) = batchCalls s"
    by (intro stopped_settle) simp_all
  with Cons.prems have "stats (run (step s e) es) = stats (step s e) \<and> scenes (run (step s e) es) = scenes (step s e)
         \<and> batchCalls (run (step s e) es) = batchCalls (step s e)"
    by (intro Cons.IH) simp_all
  with st show ?case by simp
qed

lemma step_Stop:
  "stopRef (step s Stop) \<and> \<not> isGenerating (stats (step s Stop)) \<and> scenes (step s Stop) = scenes s
   \<and> totalGenerated (stats (step s Stop)) = totalGenerated (stats s)
   \<and> batchesCompleted (stats (step s Stop)) = batchesCompleted (stats s)
   \<and> batchCalls (step s Stop) = batchCalls s"
  by (simp add: step_def handleStop_def runEffect_def Let_def generateStep_idle)

text \<open>
  Claim C1, as the code has it. \<^verbatim>\<open>handleStop\<close> raises \<^verbatim>\<open>stopRef\<close>, and the continuation of a
  pending batch request appends only under \<^verbatim>\<open>isMounted && !stopRef.current\<close>. So after a
  stop, whatever pending batch requests settle (with records or with an error), the
  collection and both batch counters stay as they were, the loop stays inactive, and the
  backend is not called again.
\<close>

theorem stop_discards_pending_batches:
  assumes "list_all isBatchSettled es"
  shows "scenes (run (step s Stop) es) = scenes s
       \<and> totalGenerated (stats (run (step s Stop) es)) = totalGenerated (stats s)
       \<and> batchesCompleted (stats (run (step s Stop) es)) = batchesCompleted (stats s)
       \<and> \<not> isGenerating (stats (run (step s Stop) es))
       \<and> batchCalls (run (step s Stop) es) = batchCalls s"
  using stopped_run [of "step s Stop" es] assms step_Stop [of s] by simp

text \<open>
  The claim as written fails: a run is started (the request for ids from 1, 50 records,
  is pending), stopped, and then the request succeeds with one record. The collection
  stays empty and the counters stay at zero.
\<close>

theorem stop_pending_counterexample:
  "batchInflight (run initial [Start True 0]) = [\<lparr>reqStartId = 1, reqCount = 50, reqMounted = True\<rparr>]
   \<and> generateSceneBatch True 1 50 (jsonResponse [sampleItem]) = Inr [sampleItem\<lparr>id_of := 1\<rparr>]
   \<and> scenes (run initial [Start True 0, Stop, BatchSettled 0 True (jsonResponse [sampleItem])]) = []
   \<and> totalGenerated (stats (run initial [Start True 0, Stop, BatchSettled 0 True (jsonResponse [sampleItem])])) = 0
   \<and> batchesCompleted (stats (run initial [Start True 0, Stop, BatchSettled 0 True (jsonResponse [sampleItem])])) = 0"
  by (simp add: step_def runEffect_def handleStart_def handleStop_def batchSettled_def initial_def
      deps_def cleanup_def generateStep_def Let_def TOTAL_GOAL_def BATCH_SIZE_def without_def
      number_items_def enumerate_eq_zip del: generateSceneBatch.simps)

theorem stop_discards_pending_batches_witness:
  "list_all isBatchSettled [BatchSettled 0 True (jsonResponse [sampleItem])]
   \<and> batchInflight (run initial [Start True 0]) \<noteq> []
   \<and> scenes (run (step (run initial [Start True 0]) Stop) [BatchSettled 0 True (jsonResponse [sampleItem])])
       = scenes (run initial [Start True 0])
   \<and> batchCalls (run (step (run initial [Start True 0]) Stop) [BatchSettled 0 True (jsonResponse [sampleItem])])
       = [(1, 50)]"
proof -
  have h: "list_all isBatchSettled [BatchSettled 0 True (jsonResponse [sampleItem])]" by simp
  have "batchInflight (run initial [Start True 0]) \<noteq> [] \<and> batchCalls (run initial [Start True 0]) = [(1, 50)]"
    by (simp add: step_def runEffect_def handleStart_def initial_def
      deps_def cleanup_def generateStep_def Let_def TOTAL_GOAL_def BATCH_SIZE_def)
  with h stop_discards_pending_batches [OF h, of "run initial [Start True 0]"] show ?thesis
    by simp
qed

subsection \<open>The goal and the size of the answers\<close>

lemma callsSized_initial: "callsSized initial"
  by (simp add: callsSized_def initial_def)

lemma run_started_two:
  "run initial [Start True 0, BatchSettled 0 True (jsonResponse [sampleItem, sampleItem])]
     = \<lparr> scenes = [sampleItem\<lparr>id_of := 1\<rparr>, sampleItem\<lparr>id_of := 2\<rparr>],
         stats = \<lparr> totalGenerated = 2, batchesCompleted = 1, isGenerating = True,
                   startTime = Some 0, elapsedTime = 0 \<rparr>,
         stopRef = False, selectedScene = None,
         batchInflight = [\<lparr>reqStartId = 3, reqCount = 50, reqMounted = True\<rparr>],
         batchCalls = [(1, 50), (3, 50)], thumbInflight = [], highResInflight = [] \<rparr>"
  by (simp add: step_def runEffect_def handleStart_def batchSettled_def initial_def
      deps_def cleanup_def generateStep_def Let_def TOTAL_GOAL_def BATCH_SIZE_def without_def
      number_items_def enumerate_eq_zip del: generateSceneBatch.simps)

text \<open>
  Claim C2, as the code has it. \<^verbatim>\<open>generateSceneBatch\<close> numbers and returns every item of
  the parsed array, however many were asked for, and \<^verbatim>\<open>generateStep\<close> appends them all. In
  every run from the initial state in which each successful batch holds at most the
  number of records requested, the collection never exceeds the goal; and every call of
  the backend was made below the goal and asked for the smaller of the batch size and
  what was missing.
\<close>

theorem goal_bounds_collection:
  assumes "allWithinRequest initial es"
  shows "length (scenes (run initial es)) \<le> TOTAL_GOAL \<and> callsSized (run initial es)"
  using run_bounded [OF pendingCurrent_initial _ assms] run_callsSized [OF callsSized_initial, of es]
  by (simp add: initial_def)

theorem goal_bounds_collection_witness:
  "allWithinRequest initial [Start True 0, BatchSettled 0 True (jsonResponse [sampleItem, sampleItem])]
   \<and> length (scenes (run initial [Start True 0, BatchSettled 0 True (jsonResponse [sampleItem, sampleItem])])) = 2
   \<and> length (scenes (run initial [Start True 0, BatchSettled 0 True (jsonResponse [sampleItem, sampleItem])])) \<le> TOTAL_GOAL
   \<and> callsSized (run initial [Start True 0, BatchSettled 0 True (jsonResponse [sampleItem, sampleItem])])"
proof -
  have h: "allWithinRequest initial [Start True 0, BatchSettled 0 True (jsonResponse [sampleItem, sampleItem])]"
    by (simp add: withinRequest_def step_def runEffect_def handleStart_def initial_def
      deps_def cleanup_def generateStep_def Let_def TOTAL_GOAL_def BATCH_SIZE_def length_number_items
      del: generateSceneBatch.simps)
  from h goal_bounds_collection [OF h] show ?thesis
    by (simp add: run_started_two del: run_Cons allWithinRequest.simps)
qed

text \<open>
  The claim as written fails: the run is started and the backend answers each of
  twenty requests with 51 records, one more than the 50 asked for (and 20 more than the
  31 asked for at size 969). The collection ends with 1020 records.
\<close>

theorem goal_overrun_counterexample:
  "length (scenes (run initial (Start True 0 #
      replicate 20 (BatchSettled 0 True (jsonResponse (replicate 51 sampleItem)))))) = 1020
   \<and> \<not> length (scenes (run initial (Start True 0 #
      replicate 20 (BatchSettled 0 True (jsonResponse (replicate 51 sampleItem)))))) \<le> TOTAL_GOAL"
proof -
  have "length (scenes (step initial (Start True 0))) = 0"
    by (simp add: initial_def step_def handleStart_def)
  then have "length (scenes (run (step initial (Start True 0))
      (replicate 20 (BatchSettled 0 True (jsonResponse (replicate 51 sampleItem)))))) = 0 + 20 * 51"
    using looping_run_length [OF looping_start, of 0 20 "replicate 51 sampleItem"]
    by (simp add: TOTAL_GOAL_def)
  then show ?thesis by (simp add: TOTAL_GOAL_def)
qed

subsection \<open>The counter of generated records\<close>

lemma number_items_append:
  "number_items a (xs @ ys) = number_items a xs @ number_items (a + int (length xs)) ys"
  by (rule nth_equalityI)
     (auto simp: length_number_items nth_number_items nth_append)

lemma looping_settle_count:
  assumes "looping s" and "length (scenes s) < TOTAL_GOAL"
  shows "batchesCompleted (stats (step s (BatchSettled 0 True (jsonResponse items))))
           = batchesCompleted (stats s) + 1"
  using assms
  by (simp add: step_def batchSettled_def looping_def Let_def del: generateSceneBatch.simps)

lemma looping_done:
  assumes "looping s" and "\<not> length (scenes s) < TOTAL_GOAL"
  shows "step s (BatchSettled k apiKey response) = s"
  using assms by (simp add: step_def batchSettled_def looping_def runEffect_def)

lemma looping_run_scenes:
  assumes "looping s" and "length (scenes s) + sum_list (map length bs) \<le> TOTAL_GOAL"
  shows "scenes (run s (map (\<lambda>b. BatchSettled 0 True (jsonResponse b)) bs))
           = scenes s @ number_items (int (length (scenes s)) + 1) (concat bs)"
  using assms
proof (induction bs arbitrary: s)
  case Nil
  show ?case by (simp add: number_items_def)
next
  case (Cons b bs)
  let ?e = "BatchSettled 0 True (jsonResponse b)"
  show ?case
  proof (cases "length (scenes s) < TOTAL_GOAL")
    case True
    note st = looping_settle [OF Cons.prems(1) True, of b]
    have len: "length (scenes (step s ?e)) = length (scenes s) + length b"
      by (simp add: st(2) length_number_items)
    with Cons.prems(2) have "length (scenes (step s ?e)) + sum_list (map length bs) \<le> TOTAL_GOAL"
      by simp
    from Cons.IH [OF st(1) this] show ?thesis
      by (simp add: st(2) number_items_append length_number_items ac_simps)
  next
    case False
    with Cons.prems(2) have b: "b = []" by (cases b) auto
    from looping_done [OF Cons.prems(1) False] have "step s ?e = s" .
    moreover from Cons.prems(2) b have "length (scenes s) + sum_list (map length bs) \<le> TOTAL_GOAL"
      by simp
    ultimately show ?thesis using Cons.IH [OF Cons.prems(1)] b by simp
  qed
qed

lemma looping_run_batches:
  assumes "looping s"
    and "bs \<noteq> [] \<longrightarrow> length (scenes s) + sum_list (map length (butlast bs)) < TOTAL_GOAL"
  shows "batchesCompleted (stats (run s (map (\<lambda>b. BatchSettled 0 True (jsonResponse b)) bs)))
           = batchesCompleted (stats s) + length bs"
  using assms
proof (induction bs arbitrary: s)
  case Nil
  show ?case by simp
next
  case (Cons b bs)
  let ?e = "BatchSettled 0 True (jsonResponse b)"
  from Cons.prems(2) have below: "length (scenes s) < TOTAL_GOAL"
    by (cases bs) auto
  note st = looping_settle [OF Cons.prems(1) below, of b]
  have len: "length (scenes (step s ?e)) = length (scenes s) + length b"
    by (simp add: st(2) length_number_items)
  have "bs \<noteq> [] \<longrightarrow> length (scenes (step s ?e)) + sum_list (map length (butlast bs)) < TOTAL_GOAL"
    using Cons.prems(2) len by auto
  from Cons.IH [OF st(1) this] looping_settle_count [OF Cons.prems(1) below, of b]
  show ?case by simp
qed

text \<open>
  Claim C6. A run is started on the empty collection and N batches settle one after the
  other, holding T records in all, T not above the goal. Then the collection is the
  returned records, in order and numbered from 1, so its length is T, and
  \<^verbatim>\<open>totalGenerated\<close> is T; when every batch but the last left the collection below the
  goal, so that all N were requested, \<^verbatim>\<open>batchesCompleted\<close> is N. Moreover, after any
  events whatever, the counter equals the length of the collection.
\<close>

theorem counter_and_collection_hold_returned_records:
  assumes "sum_list (map length bs) \<le> TOTAL_GOAL"
  shows "scenes (run initial (Start True now # map (\<lambda>b. BatchSettled 0 True (jsonResponse b)) bs))
           = number_items 1 (concat bs)
       \<and> length (scenes (run initial (Start True now # map (\<lambda>b. BatchSettled 0 True (jsonResponse b)) bs)))
           = sum_list (map length bs)
       \<and> totalGenerated (stats (run initial (Start True now # map (\<lambda>b. BatchSettled 0 True (jsonResponse b)) bs)))
           = sum_list (map length bs)
       \<and> (sum_list (map length (butlast bs)) < TOTAL_GOAL \<longrightarrow>
            batchesCompleted (stats (run initial (Start True now # map (\<lambda>b. BatchSettled 0 True (jsonResponse b)) bs)))
              = length bs)
       \<and> totalGenerated (stats (run initial es)) = length (scenes (run initial es))"
proof -
  let ?s = "step initial (Start True now)"
  let ?r = "run initial (Start True now # map (\<lambda>b. BatchSettled 0 True (jsonResponse b)) bs)"
  have s0: "scenes ?s = []" "batchesCompleted (stats ?s) = 0"
    by (simp_all add: step_def handleStart_def initial_def)
  have inv: "totalGenerated (stats (run initial xs)) = length (scenes (run initial xs))" for xs
    by (rule run_counter) (simp add: initial_def)
  have a: "scenes ?r = number_items 1 (concat bs)"
    using looping_run_scenes [OF looping_start, of now bs] assms by (simp add: s0)
  then have b: "length (scenes ?r) = sum_list (map length bs)"
    by (simp add: length_number_items length_concat)
  have c: "totalGenerated (stats ?r) = sum_list (map length bs)"
    using inv [of "Start True now # map (\<lambda>b. BatchSettled 0 True (jsonResponse b)) bs"] b by simp
  have d: "batchesCompleted (stats ?r) = length bs"
    if "sum_list (map length (butlast bs)) < TOTAL_GOAL"
    using looping_run_batches [OF looping_start, of bs now] that by (simp add: s0)
  from a b c d inv [of es] show ?thesis by blast
qed

theorem counter_and_collection_hold_returned_records_witness:
  "sum_list (map length [[sampleItem, sampleItem], [sampleItem]]) \<le> TOTAL_GOAL
   \<and> sum_list (map length (butlast [[sampleItem, sampleItem], [sampleItem]])) < TOTAL_GOAL
   \<and> scenes (run initial [Start True 0, BatchSettled 0 True (jsonResponse [sampleItem, sampleItem]),
        BatchSettled 0 True (jsonResponse [sampleItem])])
       = [sampleItem\<lparr>id_of := 1\<rparr>, sampleItem\<lparr>id_of := 2\<rparr>, sampleItem\<lparr>id_of := 3\<rparr>]
   \<and> totalGenerated (stats (run initial [Start True 0, BatchSettled 0 True (jsonResponse [sampleItem, sampleItem]),
        BatchSettled 0 True (jsonResponse [sampleItem])])) = 3
   \<and> batchesCompleted (stats (run initial [Start True 0, BatchSettled 0 True (jsonResponse [sampleItem, sampleItem]),
        BatchSettled 0 True (jsonResponse [sampleItem])])) = 2"
proof -
  have h: "sum_list (map length [[sampleItem, sampleItem], [sampleItem]]) \<le> TOTAL_GOAL"
    by (simp add: TOTAL_GOAL_def)
  from h counter_and_collection_hold_returned_records [OF h, of 0 "[]"] show ?thesis
    by (simp add: TOTAL_GOAL_def number_items_def enumerate_eq_zip del: run_Cons)
qed

subsection \<open>Resuming\<close>

lemma resume_state:
  assumes "scenes s \<noteq> []" and "length (scenes s) < TOTAL_GOAL"
  shows "run s [Stop, Start True now]
           = s\<lparr>stopRef := False,
               stats := (stats s)\<lparr>isGenerating := True\<rparr>,
               batchInflight := map (\<lambda>r. r\<lparr>reqMounted := False\<rparr>) (batchInflight s) @
                 [\<lparr>reqStartId = int (length (scenes s)) + 1,
                   reqCount = min BATCH_SIZE (TOTAL_GOAL - length (scenes s)),
                   reqMounted = True\<rparr>],
               batchCalls := batchCalls s @
                 [(int (length (scenes s)) + 1, min BATCH_SIZE (TOTAL_GOAL - length (scenes s)))]\<rparr>"
  using assms
  by (cases "isGenerating (stats s)")
     (simp_all add: step_def runEffect_def handleStop_def handleStart_def deps_def cleanup_def
       generateStep_def Let_def o_def)

lemma resume_settle:
  assumes "scenes s \<noteq> []" and "length (scenes s) < TOTAL_GOAL" and "t \<noteq> []"
  shows "scenes (run s [Stop, Start True now,
            BatchSettled (length (batchInflight s)) True (Responds (Some t) (ParsedArray items))])
           = scenes s @ number_items (int (length (scenes s)) + 1) items"
proof -
  have "run s [Stop, Start True now, BatchSettled (length (batchInflight s)) True (Responds (Some t) (ParsedArray items))]
        = step (run s [Stop, Start True now])
            (BatchSettled (length (batchInflight s)) True (Responds (Some t) (ParsedArray items)))"
    by simp
  also have "scenes \<dots> = scenes s @ number_items (int (length (scenes s)) + 1) items"
    unfolding resume_state [OF assms(1,2)] using assms(3)
    by (simp add: step_def batchSettled_def Let_def nth_append truthy_str_def)
  finally show ?thesis .
qed

text \<open>
  Claim C3. In every run from the initial state (an uninterrupted run in particular) the
  ids of the collection are exactly 1..T in order, T being its length; a batch gives its
  i-th item the id \<open>startId + i\<close>. On a non-empty collection below the goal, stop followed by
  start leaves the collection as it was and requests the next batch from id
  \<open>length + 1\<close>; when that batch arrives its records are numbered from there and put
  after the existing ones.
\<close>

theorem ids_contiguous_and_resumed:
  "map id_of (scenes (run initial es)) = [1..int (length (scenes (run initial es)))]
   \<and> map id_of (number_items a items) = map (\<lambda>i. a + int i) [0..<length items]
   \<and> (scenes s \<noteq> [] \<longrightarrow> length (scenes s) < TOTAL_GOAL \<longrightarrow> t \<noteq> [] \<longrightarrow>
        scenes (run s [Stop, Start True now]) = scenes s
      \<and> last (batchInflight (run s [Stop, Start True now]))
          = \<lparr>reqStartId = int (length (scenes s)) + 1,
             reqCount = min BATCH_SIZE (TOTAL_GOAL - length (scenes s)),
             reqMounted = True\<rparr>
      \<and> scenes (run s [Stop, Start True now,
            BatchSettled (length (batchInflight s)) True (Responds (Some t) (ParsedArray items))])
          = scenes s @ number_items (int (length (scenes s)) + 1) items)"
proof -
  have "map id_of (scenes (run initial es)) = map (\<lambda>i. 1 + int i) [0..<length (scenes (run initial es))]"
    by (rule run_ids [OF pendingCurrent_initial]) (simp add: initial_def)
  then have a: "map id_of (scenes (run initial es)) = [1..int (length (scenes (run initial es)))]"
    by (simp only: ids_upto)
  have b: "scenes (run s [Stop, Start True now]) = scenes s
      \<and> last (batchInflight (run s [Stop, Start True now]))
          = \<lparr>reqStartId = int (length (scenes s)) + 1,
             reqCount = min BATCH_SIZE (TOTAL_GOAL - length (scenes s)),
             reqMounted = True\<rparr>"
    if "scenes s \<noteq> []" "length (scenes s) < TOTAL_GOAL"
    unfolding resume_state [OF that] by simp
  show ?thesis
    using a b resume_settle [of s t now items] by (simp only: ids_number_items) blast
qed

theorem ids_contiguous_and_resumed_witness:
  "map id_of (scenes (run initial [Start True 0, BatchSettled 0 True (jsonResponse [sampleItem, sampleItem])])) = [1, 2]
   \<and> scenes (run initial [Start True 0, BatchSettled 0 True (jsonResponse [sampleItem, sampleItem])]) \<noteq> []
   \<and> length (scenes (run initial [Start True 0, BatchSettled 0 True (jsonResponse [sampleItem, sampleItem])])) < TOTAL_GOAL
   \<and> arrayText [sampleItem] \<noteq> []
   \<and> map id_of (scenes (run (run initial [Start True 0, BatchSettled 0 True (jsonResponse [sampleItem, sampleItem])])
        [Stop, Start True 5, BatchSettled 1 True (jsonResponse [sampleItem])])) = [1, 2, 3]"
proof -
  let ?es = "[Start True 0, BatchSettled 0 True (jsonResponse [sampleItem, sampleItem])]"
  have j: "Responds (Some (arrayText [sampleItem])) (ParsedArray [sampleItem]) = jsonResponse [sampleItem]"
    by (simp add: jsonResponse_def)
  have ne: "arrayText [sampleItem] \<noteq> []"
    by (simp add: arrayText_def)
  have up: "[1..2] = [1, 2::int]"
    by (simp add: upto.simps)
  note th = ids_contiguous_and_resumed [of ?es 0 "[sampleItem]" "run initial ?es"
      "arrayText [sampleItem]" 5, unfolded j]
  from th ne show ?thesis
    by (simp add: run_started_two TOTAL_GOAL_def number_items_def enumerate_eq_zip up
      del: run_Cons run_append generateSceneBatch.simps)
qed

subsection \<open>Records kept\<close>

lemma content_handle:
  assumes "\<not> isInstantLoad e" and "\<not> isHighResSettled e"
  shows "prefix (map content (scenes s)) (map content (scenes (handle e s)))"
proof (cases e)
  case (BatchSettled k apiKey response)
  then show ?thesis
    by (auto simp: batchSettled_def Let_def split: sum.splits simp del: generateSceneBatch.simps)
next
  case (ImageSettled n outcome)
  then show ?thesis
    by (auto simp: imageSettled_def Let_def split: image_outcome.splits option.splits)
qed (use assms in \<open>auto simp: handleStart_def handleStop_def tick_def
        handleToggleFavorite_def handleGenerateImage_def openModal_def closeModal_def
        handleGenerateHighRes_def Let_def split: option.splits\<close>)

lemma scenes_handle_prefix:
  assumes "isBatchSettled e \<or> e = Stop"
  shows "prefix (scenes s) (scenes (handle e s))"
  using assms
  by (cases e) (auto simp: batchSettled_def handleStop_def Let_def split: sum.splits simp del: generateSceneBatch.simps)

lemma ids_handle:
  assumes "\<not> isInstantLoad e"
  shows "prefix (map id_of (scenes s)) (map id_of (scenes (handle e s)))"
  using scenes_handle_cases [of e s] assms by auto

lemma length_handle:
  assumes "\<not> isInstantLoad e" and "\<not> isBatchSettled e"
  shows "length (scenes (handle e s)) = length (scenes s)"
  using scenes_handle_cases [of e s] assms by auto

text \<open>
  Claim C7, as the code has it. A record is still present when the collection holds, at
  the same position, a record with the same id and the same generated content
  (description, category, lighting, camera). Every event other than Instant Load keeps
  each id at its position; every event other than Instant Load and the arrival of a
  high-resolution image (which writes back the snapshot taken when the request was made)
  keeps each record's generated content as well; a settled batch and a stop leave the
  existing records entirely unchanged, a batch adding its records at the end; only a
  batch changes the length. Instant Load replaces the whole collection by the
  curated batch.
\<close>

theorem records_kept_except_instant_load:
  "(\<not> isInstantLoad e \<longrightarrow> prefix (map id_of (scenes s)) (map id_of (scenes (step s e))))
   \<and> (\<not> isInstantLoad e \<longrightarrow> \<not> isHighResSettled e \<longrightarrow>
        prefix (map content (scenes s)) (map content (scenes (step s e))))
   \<and> (isBatchSettled e \<or> e = Stop \<longrightarrow> prefix (scenes s) (scenes (step s e)))
   \<and> (\<not> isInstantLoad e \<longrightarrow> \<not> isBatchSettled e \<longrightarrow> length (scenes (step s e)) = length (scenes s))
   \<and> scenes (step s (InstantLoad rnd now)) = generateCuratedBatch rnd 1 TOTAL_GOAL"
  by (simp add: step_def ids_handle content_handle scenes_handle_prefix length_handle
      handleInstantLoad_def Let_def)

theorem records_kept_except_instant_load_witness:
  "\<not> isInstantLoad (BatchSettled 0 True (jsonResponse [sampleItem]))
   \<and> \<not> isHighResSettled (BatchSettled 0 True (jsonResponse [sampleItem]))
   \<and> isBatchSettled (BatchSettled 0 True (jsonResponse [sampleItem]))
   \<and> \<not> isInstantLoad (ToggleFavorite 2) \<and> \<not> isBatchSettled (ToggleFavorite 2)
   \<and> prefix (scenes (run initial [Start True 0, BatchSettled 0 True (jsonResponse [sampleItem, sampleItem])]))
        (scenes (step (run initial [Start True 0, BatchSettled 0 True (jsonResponse [sampleItem, sampleItem])])
           (BatchSettled 0 True (jsonResponse [sampleItem]))))
   \<and> length (scenes (step (run initial [Start True 0, BatchSettled 0 True (jsonResponse [sampleItem, sampleItem])])
           (BatchSettled 0 True (jsonResponse [sampleItem])))) = 3
   \<and> length (scenes (step (run initial [Start True 0, BatchSettled 0 True (jsonResponse [sampleItem, sampleItem])])
           (ToggleFavorite 2))) = 2"
  using records_kept_except_instant_load [of "BatchSettled 0 True (jsonResponse [sampleItem])"
      "run initial [Start True 0, BatchSettled 0 True (jsonResponse [sampleItem, sampleItem])]" id 0]
    records_kept_except_instant_load [of "ToggleFavorite 2"
      "run initial [Start True 0, BatchSettled 0 True (jsonResponse [sampleItem, sampleItem])]" id 0]
  by (simp add: run_started_two step_def batchSettled_def Let_def length_number_items
      del: run_Cons generateSceneBatch.simps)

text \<open>
  The claim as written fails at Instant Load: a run is started, its first batch brings
  one record, the run is stopped, and Instant Load is pressed. The record that was in the
  collection is gone; the first place now holds a curated record with another
  description.
\<close>

theorem instant_load_counterexample:
  "scenes (run initial [Start True 0, BatchSettled 0 True (jsonResponse [sampleItem]), Stop])
     = [sampleItem\<lparr>id_of := 1\<rparr>]
   \<and> \<not> prefix (map content [sampleItem\<lparr>id_of := 1\<rparr>])
        (map content (scenes (run initial
           [Start True 0, BatchSettled 0 True (jsonResponse [sampleItem]), Stop, InstantLoad id 0])))
   \<and> description (hd (scenes (run initial
           [Start True 0, BatchSettled 0 True (jsonResponse [sampleItem]), Stop, InstantLoad id 0])))
       = ''POV in a peaceful scene set in rainy city street, touching ancient symbols. Style: Synthwave x Ukiyo-e.''"
proof -
  have a: "scenes (run initial [Start True 0, BatchSettled 0 True (jsonResponse [sampleItem]), Stop])
     = [sampleItem\<lparr>id_of := 1\<rparr>]"
    by (simp add: step_def runEffect_def handleStart_def handleStop_def batchSettled_def initial_def
      deps_def cleanup_def generateStep_def Let_def TOTAL_GOAL_def BATCH_SIZE_def without_def
      number_items_def enumerate_eq_zip del: generateSceneBatch.simps)
  have "0 < TOTAL_GOAL" by (simp add: TOTAL_GOAL_def)
  then have "generateCuratedBatch id 1 TOTAL_GOAL
      = curatedScene id 1 0 # map (curatedScene id 1) [Suc 0..<TOTAL_GOAL]"
    by (simp only: generateCuratedBatch_eq upt_conv_Cons list.map)
  moreover have "scenes (run initial
           [Start True 0, BatchSettled 0 True (jsonResponse [sampleItem]), Stop, InstantLoad id 0])
        = generateCuratedBatch id 1 TOTAL_GOAL"
    by (simp add: step_def [of _ "InstantLoad id 0"] handleInstantLoad_def Let_def)
  moreover have "description (curatedScene id 1 0)
      = ''POV in a peaceful scene set in rainy city street, touching ancient symbols. Style: Synthwave x Ukiyo-e.''"
    by (simp add: curatedScene_def Let_def pick_def randomIndex_def describe_def moods_def
        locations_def actions_def styles_def)
  ultimately show ?thesis using a
    by (simp add: content_def sampleItem_def del: run_Cons)
qed

subsection \<open>The remote backend on empty and malformed responses\<close>

text \<open>
  Claim C4, as the code has it. With a key present, a response without text (absent
  or empty) makes \<^verbatim>\<open>generateSceneBatch\<close> return the empty list. A response whose text
  \<^verbatim>\<open>JSON.parse\<close> rejects, or parses to something that is not an array, makes it throw:
  the \<^verbatim>\<open>catch\<close> block logs the error and throws it again. In none of these cases is a
  record made up.
\<close>

theorem empty_returns_nothing_malformed_throws:
  "generateSceneBatch True a n (Responds None parsed) = Inr []
   \<and> generateSceneBatch True a n (Responds (Some []) parsed) = Inr []
   \<and> (t \<noteq> [] \<longrightarrow> generateSceneBatch True a n (Responds (Some t) ParseThrows) = Inl SyntaxError)
   \<and> (t \<noteq> [] \<longrightarrow> generateSceneBatch True a n (Responds (Some t) ParsedNotArray) = Inl TypeError)
   \<and> generateSceneBatch True a n (Responds (Some t) (ParsedArray [])) = Inr []"
  by (simp add: truthy_str_def number_items_def)

theorem empty_returns_nothing_malformed_throws_witness:
  "''not json'' \<noteq> []
   \<and> generateSceneBatch True 1 50 (Responds (Some ''not json'') ParseThrows) = Inl SyntaxError
   \<and> generateSceneBatch True 1 50 (Responds (Some ''not json'') ParsedNotArray) = Inl TypeError
   \<and> generateSceneBatch True 1 50 (Responds None ParseThrows) = Inr []"
  using empty_returns_nothing_malformed_throws [of 1 50 ParseThrows "''not json''"]
  by (simp del: generateSceneBatch.simps)

text \<open>
  The claim as written fails on a malformed response: the text \<open>{\<close> is not JSON,
  \<^verbatim>\<open>JSON.parse\<close> throws, and the call ends with that error instead of an empty list.
\<close>

theorem malformed_response_counterexample:
  "generateSceneBatch True 1 50 (Responds (Some ''{'') ParseThrows) = Inl SyntaxError
   \<and> generateSceneBatch True 1 50 (Responds (Some ''{'') ParseThrows) \<noteq> Inr []"
  by (simp add: truthy_str_def)

subsection \<open>A second thumbnail request for a pending record\<close>

lemma run_one_stopped:
  "run initial [Start True 0, BatchSettled 0 True (jsonResponse [sampleItem]), Stop]
     = \<lparr> scenes = [sampleItem\<lparr>id_of := 1\<rparr>],
         stats = \<lparr> totalGenerated = 1, batchesCompleted = 1, isGenerating = False,
                   startTime = Some 0, elapsedTime = 0 \<rparr>,
         stopRef = True, selectedScene = None,
         batchInflight = [\<lparr>reqStartId = 2, reqCount = 50, reqMounted = False\<rparr>],
         batchCalls = [(1, 50), (2, 50)], thumbInflight = [], highResInflight = [] \<rparr>"
  by (simp add: step_def runEffect_def handleStart_def handleStop_def batchSettled_def initial_def
      deps_def cleanup_def generateStep_def Let_def TOTAL_GOAL_def BATCH_SIZE_def without_def
      number_items_def enumerate_eq_zip del: generateSceneBatch.simps)

text \<open>
  Claim C5 at a failing input. A run brought one record, without thumbnail, and was
  stopped. The card's button requests the record's thumbnail: one request is pending and
  the record is marked as generating. Then the page's visuals are loaded:
  \<^verbatim>\<open>handleGeneratePageThumbnails\<close> of App.tsx selects the record again (it has no
  thumbnail), and \<^verbatim>\<open>handleGenerateImage\<close>, which never looks at \<^verbatim>\<open>isGeneratingThumbnail\<close>,
  issues a second request while the first is pending. The later revision's filter
  leaves the record out.
\<close>

theorem second_thumbnail_request_while_pending:
  "pendingThumbnails 1 (run initial [Start True 0, BatchSettled 0 True (jsonResponse [sampleItem]), Stop,
       GenerateImage True 1 (description sampleItem)]) = 1
   \<and> map isGeneratingThumbnail (scenes (run initial
       [Start True 0, BatchSettled 0 True (jsonResponse [sampleItem]), Stop,
        GenerateImage True 1 (description sampleItem)])) = [Some True]
   \<and> pendingThumbnails 1 (handleGeneratePageThumbnails True False 1 (run initial
       [Start True 0, BatchSettled 0 True (jsonResponse [sampleItem]), Stop,
        GenerateImage True 1 (description sampleItem)])) = 2
   \<and> pendingThumbnails 1 (handleGenerateImage True 1 (description sampleItem) (run initial
       [Start True 0, BatchSettled 0 True (jsonResponse [sampleItem]), Stop,
        GenerateImage True 1 (description sampleItem)])) = 2
   \<and> scenesToLoad (displayedScenes False 1 (scenes (run initial
       [Start True 0, BatchSettled 0 True (jsonResponse [sampleItem]), Stop,
        GenerateImage True 1 (description sampleItem)]))) = []"
proof -
  have "run initial [Start True 0, BatchSettled 0 True (jsonResponse [sampleItem]), Stop,
       GenerateImage True 1 (description sampleItem)]
     = step (run initial [Start True 0, BatchSettled 0 True (jsonResponse [sampleItem]), Stop])
         (GenerateImage True 1 (description sampleItem))"
    by simp
  then show ?thesis
    unfolding run_one_stopped
    by (simp add: step_def runEffect_def deps_def handleGenerateImage_def
      handleGeneratePageThumbnails_def pendingThumbnails_def setGeneratingThumbnail_def
      sampleItem_def displayedScenes_def filteredScenes_def slice_def ITEMS_PER_PAGE_def
      pageTargets_def needsThumbnail_def scenesToLoad_def truthy_def Let_def
      del: run_Cons)
qed

subsection \<open>The local backend\<close>

lemma categoryFor_lookup:
  "categoryFor location =
     (case map_of LOCATION_CATEGORY_MAP location of None \<Rightarrow> ''General'' | Some c \<Rightarrow> c)"
proof (cases "map_of LOCATION_CATEGORY_MAP location")
  case None
  then show ?thesis by (simp add: categoryFor_def)
next
  case (Some c)
  then have "(location, c) \<in> set LOCATION_CATEGORY_MAP" by (rule map_of_SomeD)
  then have "c \<noteq> []" by (auto simp: LOCATION_CATEGORY_MAP_def)
  with Some show ?thesis by (simp add: categoryFor_def)
qed

lemma curatedScene_fields:
  "id_of (curatedScene rnd a i) = a + int i"
  "thumbnailUrl (curatedScene rnd a i)
     = Some (''https://picsum.photos/seed/'' @ string_of_int (a + int i) @ ''/400/225'')"
  "description (curatedScene rnd a i)
     = ''POV in a '' @ pick rnd (5 * i) moods @ '' scene set in '' @ pick rnd (5 * i + 1) locations
         @ '', '' @ pick rnd (5 * i + 2) actions @ ''. Style: '' @ pick rnd (5 * i + 3) styles @ ''.''"
  "category (curatedScene rnd a i) = categoryFor (pick rnd (5 * i + 1) locations)"
  "lighting (curatedScene rnd a i) = pick rnd (5 * i + 4) lightingOptions"
  "camera (curatedScene rnd a i) = ''First-Person POV''"
  by (simp_all add: curatedScene_def Let_def describe_def placeholderUrl_def)

lemma curatedLoopRun_eq:
  "i \<le> n \<Longrightarrow> curatedLoopRun rnd a n i acc = Some (acc @ map (curatedScene rnd a) [i..<n])"
proof (induction "n - i" arbitrary: i acc)
  case 0
  then show ?case by (subst curatedLoopRun.simps) simp
next
  case (Suc d)
  then have lt: "i < n" and d: "d = n - (i + 1)" and le: "i + 1 \<le> n" by simp_all
  have "curatedLoopRun rnd a n i acc = curatedLoopRun rnd a n (i + 1) (acc @ [curatedScene rnd a i])"
    using lt by (subst curatedLoopRun.simps) simp
  also have "\<dots> = Some ((acc @ [curatedScene rnd a i]) @ map (curatedScene rnd a) [i + 1..<n])"
    by (rule Suc.hyps(1) [OF d le])
  also have "\<dots> = Some (acc @ map (curatedScene rnd a) [i..<n])"
    using lt by (simp add: upt_conv_Cons)
  finally show ?case .
qed

lemma lightingOptions_ne: "lightingOptions \<noteq> []"
  by (simp add: lightingOptions_def)

text \<open>
  Claim C8. For every random source, start id and count, the call of
  \<^verbatim>\<open>generateCuratedBatch\<close> comes back with a list (its loop ends and no step of it fails or
  waits), and the list has exactly \<open>count\<close> records whose ids are \<open>startId, startId + 1, \<dots>\<close>
  in order. Each record's description is the sentence
  \<open>POV in a <mood> scene set in <location>, <action>. Style: <style>.\<close> for a mood, a
  location, an action and a style of the fixed lists, hence not empty; its category is
  the entry of the lookup table for that location, or \<open>General\<close> when there is none; its
  lighting is one of the five options and its camera the fixed label; its thumbnail is
  the placeholder URL with the record's own id as seed.
\<close>

theorem curated_batch_records:
  "generateCuratedBatchRun rnd startId count = Some (generateCuratedBatch rnd startId count)
   \<and> length (generateCuratedBatch rnd startId count) = count
   \<and> map id_of (generateCuratedBatch rnd startId count) = map (\<lambda>i. startId + int i) [0..<count]
   \<and> (\<forall>sc \<in> set (generateCuratedBatch rnd startId count).
        description sc \<noteq> []
        \<and> (\<exists>mood \<in> set moods. \<exists>location \<in> set locations. \<exists>action \<in> set actions. \<exists>style \<in> set styles.
              description sc = ''POV in a '' @ mood @ '' scene set in '' @ location @ '', '' @ action
                                 @ ''. Style: '' @ style @ ''.''
              \<and> category sc = (case map_of LOCATION_CATEGORY_MAP location of
                                  None \<Rightarrow> ''General'' | Some c \<Rightarrow> c))
        \<and> lighting sc \<in> set lightingOptions
        \<and> camera sc = ''First-Person POV''
        \<and> thumbnailUrl sc
            = Some (''https://picsum.photos/seed/'' @ string_of_int (id_of sc) @ ''/400/225''))"
proof -
  have r: "generateCuratedBatchRun rnd startId count = Some (generateCuratedBatch rnd startId count)"
    by (simp add: generateCuratedBatchRun_def curatedLoopRun_eq generateCuratedBatch_eq)
  have "description sc \<noteq> []
        \<and> (\<exists>mood \<in> set moods. \<exists>location \<in> set locations. \<exists>action \<in> set actions. \<exists>style \<in> set styles.
              description sc = ''POV in a '' @ mood @ '' scene set in '' @ location @ '', '' @ action
                                 @ ''. Style: '' @ style @ ''.''
              \<and> category sc = (case map_of LOCATION_CATEGORY_MAP location of
                                  None \<Rightarrow> ''General'' | Some c \<Rightarrow> c))
        \<and> lighting sc \<in> set lightingOptions
        \<and> camera sc = ''First-Person POV''
        \<and> thumbnailUrl sc
            = Some (''https://picsum.photos/seed/'' @ string_of_int (id_of sc) @ ''/400/225'')"
    if "sc \<in> set (generateCuratedBatch rnd startId count)" for sc
  proof -
    from that obtain i where sc: "sc = curatedScene rnd startId i"
      by (auto simp: generateCuratedBatch_eq)
    have "\<exists>mood \<in> set moods. \<exists>location \<in> set locations. \<exists>action \<in> set actions. \<exists>style \<in> set styles.
              description sc = ''POV in a '' @ mood @ '' scene set in '' @ location @ '', '' @ action
                                 @ ''. Style: '' @ style @ ''.''
              \<and> category sc = (case map_of LOCATION_CATEGORY_MAP location of
                                  None \<Rightarrow> ''General'' | Some c \<Rightarrow> c)"
      unfolding sc curatedScene_fields categoryFor_lookup
      using pick_in [OF moods_ne] pick_in [OF locations_ne] pick_in [OF actions_ne] pick_in [OF styles_ne]
      by blast
    moreover have "description sc \<noteq> []"
      by (simp add: sc curatedScene_fields)
    moreover have "lighting sc \<in> set lightingOptions"
      by (simp add: sc curatedScene_fields pick_in [OF lightingOptions_ne])
    ultimately show ?thesis
      by (simp add: sc curatedScene_fields(1,2,6))
  qed
  with r show ?thesis
    by (simp add: generateCuratedBatch_eq curatedScene_fields(1))
qed

theorem curated_batch_records_witness:
  "generateCuratedBatch id 41 2 ! 1 \<in> set (generateCuratedBatch id 41 2)
   \<and> generateCuratedBatchRun id 41 2 = Some (generateCuratedBatch id 41 2)
   \<and> map id_of (generateCuratedBatch id 41 2) = [41, 42]
   \<and> generateCuratedBatch id 41 2 ! 1
       = \<lparr> id_of = 42,
           description = ''POV in a mysterious scene set in abandoned starship corridor, running from unseen danger. Style: Van Gogh x Cyberpunk.'',
           category = ''Sci-Fi'', lighting = ''Cinematic'', camera = ''First-Person POV'',
           thumbnailUrl = Some ''https://picsum.photos/seed/42/400/225'',
           isGeneratingThumbnail = None, highResUrl = None, isGeneratingHighRes = None,
           isFavorite = None \<rparr>
   \<and> description (generateCuratedBatch id 41 2 ! 1) \<noteq> []
   \<and> lighting (generateCuratedBatch id 41 2 ! 1) \<in> set lightingOptions
   \<and> thumbnailUrl (generateCuratedBatch id 41 2 ! 1)
       = Some (''https://picsum.photos/seed/'' @ string_of_int (id_of (generateCuratedBatch id 41 2 ! 1)) @ ''/400/225'')"
proof -
  let ?b = "generateCuratedBatch id 41 2"
  have two: "?b = [curatedScene id 41 0, curatedScene id 41 (Suc 0)]"
    by (simp add: generateCuratedBatch_eq numeral_2_eq_2)
  have s42: "string_of_int 42 = ''42''"
    by (simp add: string_of_int_def string_of_nat.simps)
  have sc: "curatedScene id 41 (Suc 0)
       = \<lparr> id_of = 42,
           description = ''POV in a mysterious scene set in abandoned starship corridor, running from unseen danger. Style: Van Gogh x Cyberpunk.'',
           category = ''Sci-Fi'', lighting = ''Cinematic'', camera = ''First-Person POV'',
           thumbnailUrl = Some ''https://picsum.photos/seed/42/400/225'',
           isGeneratingThumbnail = None, highResUrl = None, isGeneratingHighRes = None,
           isFavorite = None \<rparr>"
    by (simp add: curatedScene_def Let_def pick_def randomIndex_def moods_def locations_def
        actions_def styles_def lightingOptions_def describe_def categoryFor_def
        LOCATION_CATEGORY_MAP_def placeholderUrl_def s42)
  have m: "?b ! 1 \<in> set ?b"
    by (simp add: two)
  have e: "?b ! 1
       = \<lparr> id_of = 42,
           description = ''POV in a mysterious scene set in abandoned starship corridor, running from unseen danger. Style: Van Gogh x Cyberpunk.'',
           category = ''Sci-Fi'', lighting = ''Cinematic'', camera = ''First-Person POV'',
           thumbnailUrl = Some ''https://picsum.photos/seed/42/400/225'',
           isGeneratingThumbnail = None, highResUrl = None, isGeneratingHighRes = None,
           isFavorite = None \<rparr>"
    by (simp add: two sc)
  note th = curated_batch_records [of id 41 2]
  from th have r: "generateCuratedBatchRun id 41 2 = Some ?b"
    by blast
  from th have "map id_of ?b = map (\<lambda>i. 41 + int i) [0..<2]"
    by blast
  then have ids: "map id_of ?b = [41, 42]"
    by (simp add: numeral_2_eq_2)
  from th m have p: "description (?b ! 1) \<noteq> []
      \<and> lighting (?b ! 1) \<in> set lightingOptions
      \<and> thumbnailUrl (?b ! 1)
          = Some (''https://picsum.photos/seed/'' @ string_of_int (id_of (?b ! 1)) @ ''/400/225'')"
    by blast
  from m r ids e p show ?thesis
    by blast
qed

subsection \<open>Pagination\<close>

lemma ceiling_tenth: "\<lceil>real n / 10\<rceil> = int ((n + 9) div 10)"
proof -
  have "\<lceil>real n / 10\<rceil> = \<lceil>real_of_int (int n) / real_of_int 10\<rceil>" by simp
  also have "\<dots> = - (- int n div 10)" by (rule ceiling_divide_eq_div)
  also have "\<dots> = int ((n + 9) div 10)" by (simp add: zdiv_int)
  finally show ?thesis .
qed

lemma totalPages_div: "totalPages sf xs = (length (filteredScenes sf xs) + 9) div 10"
  by (simp add: totalPages_def ITEMS_PER_PAGE_def ceiling_tenth)

lemma slice_page:
  assumes "1 \<le> p"
  shows "slice ((p - 1) * 10) (p * 10) ys = take 10 (drop (10 * nat (p - 1)) ys)"
proof (cases "(p - 1) * 10 < int (length ys)")
  case True
  with assms have k: "nat ((p - 1) * 10) = 10 * nat (p - 1)" "10 * nat (p - 1) < length ys"
    by auto
  show ?thesis
  proof (cases "p * 10 \<le> int (length ys)")
    case True
    with assms \<open>(p - 1) * 10 < int (length ys)\<close> k show ?thesis
      by (simp add: slice_def Let_def min_def algebra_simps)
  next
    case False
    with assms k have "length (drop (10 * nat (p - 1)) ys) \<le> 10" by auto
    moreover from False assms \<open>(p - 1) * 10 < int (length ys)\<close> k
    have "slice ((p - 1) * 10) (p * 10) ys = drop (10 * nat (p - 1)) ys"
      by (simp add: slice_def Let_def min_def nat_diff_distrib)
    ultimately show ?thesis by simp
  qed
next
  case False
  with assms have "length ys \<le> 10 * nat (p - 1)" by auto
  with False assms show ?thesis
    by (simp add: slice_def Let_def min_def)
qed

lemma page_bounds:
  fixes L :: nat
  shows "10 * ((L + 9) div 10) \<le> L + 9" and "L < 10 * ((L + 9) div 10) + 1"
proof -
  show "10 * ((L + 9) div 10) \<le> L + 9"
    using div_times_less_eq_dividend [of "L + 9" 10] by (simp add: mult.commute)
  have "L + 9 < 10 * ((L + 9) div 10) + 10"
    using dividend_less_div_times [of 10 "L + 9"] by simp
  then show "L < 10 * ((L + 9) div 10) + 1" by simp
qed

lemma before_last_page:
  assumes "m + 1 < (L + 9) div 10"
  shows "10 * m + 10 \<le> (L::nat)"
proof -
  from assms have "10 * (m + 2) \<le> 10 * ((L + 9) div 10)" by simp
  with page_bounds(1) [of L] show ?thesis by simp
qed

lemma on_last_page:
  assumes "m + 1 = (L + 9) div 10"
  shows "L - 10 * m = (if L mod 10 = 0 then 10 else L mod (10::nat))"
proof -
  define d where "d = L - 10 * m"
  from page_bounds [of L] assms [symmetric] have "10 * m + 1 \<le> L" and "L \<le> 10 * m + 10"
    by simp_all
  then have L: "L = 10 * m + d" and d: "1 \<le> d" "d \<le> 10"
    by (simp_all add: d_def)
  have md: "L mod 10 = d mod 10"
    unfolding L by simp
  show ?thesis
  proof (cases "d = 10")
    case True
    with md show ?thesis by (simp add: d_def [symmetric])
  next
    case False
    with d have "d < 10" "d \<noteq> 0" by simp_all
    with md show ?thesis by (simp add: d_def [symmetric])
  qed
qed

lemma displayedScenes_page:
  "1 \<le> p \<Longrightarrow> displayedScenes sf p xs = take 10 (drop (10 * nat (p - 1)) (filteredScenes sf xs))"
proof -
  assume p: "1 \<le> p"
  have "int ITEMS_PER_PAGE = 10" by (simp add: ITEMS_PER_PAGE_def)
  then show ?thesis unfolding displayedScenes_def using p by (simp only: slice_page)
qed

text \<open>
  Claim C9. With L the length of the filtered collection, the page count is
  \<open>\<lceil>L / 10\<rceil>\<close>, that is \<open>(L + 9) div 10\<close>. For a page number \<open>p \<ge> 1\<close> the displayed scenes are
  the ten (or fewer) records from index \<open>(p - 1) * 10\<close> on; every page before the last has
  exactly 10 records, and the last has \<open>L mod 10\<close> records, or 10 when 10 divides L.
\<close>

theorem pagination:
  "int (totalPages sf xs) = \<lceil>real (length (filteredScenes sf xs)) / 10\<rceil>
   \<and> totalPages sf xs = (length (filteredScenes sf xs) + 9) div 10
   \<and> (1 \<le> p \<longrightarrow> displayedScenes sf p xs = take 10 (drop (10 * nat (p - 1)) (filteredScenes sf xs)))
   \<and> (1 \<le> p \<longrightarrow> p < int (totalPages sf xs) \<longrightarrow> length (displayedScenes sf p xs) = 10)
   \<and> (1 \<le> p \<longrightarrow> p = int (totalPages sf xs) \<longrightarrow>
        length (displayedScenes sf p xs)
          = (if length (filteredScenes sf xs) mod 10 = 0 then 10 else length (filteredScenes sf xs) mod 10))"
proof -
  let ?L = "length (filteredScenes sf xs)"
  have a: "int (totalPages sf xs) = \<lceil>real ?L / 10\<rceil>"
    by (simp add: totalPages_div ceiling_tenth)
  have b: "length (displayedScenes sf p xs) = 10" if "1 \<le> p" "p < int (totalPages sf xs)"
  proof -
    from that have "nat (p - 1) + 1 < (?L + 9) div 10" by (simp add: totalPages_div)
    then have "10 * nat (p - 1) + 10 \<le> ?L" by (rule before_last_page)
    then show ?thesis using that(1) by (simp add: displayedScenes_page)
  qed
  have c: "length (displayedScenes sf p xs) = (if ?L mod 10 = 0 then 10 else ?L mod 10)"
    if "1 \<le> p" "p = int (totalPages sf xs)"
  proof -
    from that have "nat (p - 1) + 1 = (?L + 9) div 10" by (simp add: totalPages_div)
    then have "?L - 10 * nat (p - 1) = (if ?L mod 10 = 0 then 10 else ?L mod 10)"
      by (rule on_last_page)
    then show ?thesis using that(1) by (simp add: displayedScenes_page)
  qed
  from a b c totalPages_div [of sf xs] displayedScenes_page [of p sf xs] show ?thesis
    by blast
qed

theorem pagination_witness:
  "totalPages False (replicate 25 sampleItem) = 3
   \<and> (1::int) \<le> 2 \<and> 2 < int (totalPages False (replicate 25 sampleItem))
   \<and> length (displayedScenes False 2 (replicate 25 sampleItem)) = 10
   \<and> (1::int) \<le> 3 \<and> 3 = int (totalPages False (replicate 25 sampleItem))
   \<and> length (displayedScenes False 3 (replicate 25 sampleItem)) = 5"
  using pagination [of False "replicate 25 sampleItem" 2] pagination [of False "replicate 25 sampleItem" 3]
  by (simp add: filteredScenes_def)

subsection \<open>Favourites\<close>

text \<open>
  Claim C10. Toggling the favourite flag of id \<open>k\<close> keeps the length and the order of the
  collection, leaves every record with another id as it is, and changes a record with
  id \<open>k\<close> in its \<^verbatim>\<open>isFavorite\<close> field only, which is negated; nothing else of the state changes.
  The favourites view is the collection filtered by \<^verbatim>\<open>isFavorite\<close> being true: a
  subsequence of the collection holding exactly those records, as many as there are
  positions with the flag set; the unfiltered view is the collection itself.
\<close>

theorem favorite_toggle_and_view:
  "length (toggleFavorite k xs) = length xs
   \<and> (\<forall>i < length xs. id_of (xs ! i) \<noteq> k \<longrightarrow> toggleFavorite k xs ! i = xs ! i)
   \<and> (\<forall>i < length xs. id_of (xs ! i) = k \<longrightarrow>
        toggleFavorite k xs ! i = (xs ! i)\<lparr>isFavorite := Some (\<not> truthy (isFavorite (xs ! i)))\<rparr>)
   \<and> step s (ToggleFavorite k) = s\<lparr>scenes := toggleFavorite k (scenes s)\<rparr>
   \<and> filteredScenes True xs = filter (\<lambda>sc. isFavorite sc = Some True) xs
   \<and> filteredScenes False xs = xs
   \<and> subseq (filteredScenes True xs) xs
   \<and> set (filteredScenes True xs) = {sc \<in> set xs. isFavorite sc = Some True}
   \<and> length (filteredScenes True xs) = card {i. i < length xs \<and> isFavorite (xs ! i) = Some True}"
proof -
  have "step s (ToggleFavorite k) = s\<lparr>scenes := toggleFavorite k (scenes s)\<rparr>"
    by (simp add: step_def handleToggleFavorite_def runEffect_def deps_def)
  moreover have "length (filter (\<lambda>sc. isFavorite sc = Some True) xs)
      = card {i. i < length xs \<and> isFavorite (xs ! i) = Some True}"
    by (rule length_filter_conv_card)
  ultimately show ?thesis
    by (simp add: toggleFavorite_def filteredScenes_def truthy_def)
qed

theorem favorite_toggle_and_view_witness:
  "(0::nat) < length [sampleItem\<lparr>id_of := 1\<rparr>, sampleItem\<lparr>id_of := 2\<rparr>]
   \<and> id_of ([sampleItem\<lparr>id_of := 1\<rparr>, sampleItem\<lparr>id_of := 2\<rparr>] ! 0) \<noteq> 2
   \<and> toggleFavorite 2 [sampleItem\<lparr>id_of := 1\<rparr>, sampleItem\<lparr>id_of := 2\<rparr>] ! 0 = sampleItem\<lparr>id_of := 1\<rparr>
   \<and> (1::nat) < length [sampleItem\<lparr>id_of := 1\<rparr>, sampleItem\<lparr>id_of := 2\<rparr>]
   \<and> id_of ([sampleItem\<lparr>id_of := 1\<rparr>, sampleItem\<lparr>id_of := 2\<rparr>] ! 1) = 2
   \<and> toggleFavorite 2 [sampleItem\<lparr>id_of := 1\<rparr>, sampleItem\<lparr>id_of := 2\<rparr>] ! 1
       = sampleItem\<lparr>id_of := 2, isFavorite := Some True\<rparr>
   \<and> filteredScenes True (toggleFavorite 2 [sampleItem\<lparr>id_of := 1\<rparr>, sampleItem\<lparr>id_of := 2\<rparr>])
       = [sampleItem\<lparr>id_of := 2, isFavorite := Some True\<rparr>]"
proof -
  have f: "isFavorite sampleItem = None" by (simp add: sampleItem_def)
  from favorite_toggle_and_view [of 2 "[sampleItem\<lparr>id_of := 1\<rparr>, sampleItem\<lparr>id_of := 2\<rparr>]" initial]
    favorite_toggle_and_view [of 2 "toggleFavorite 2 [sampleItem\<lparr>id_of := 1\<rparr>, sampleItem\<lparr>id_of := 2\<rparr>]" initial]
  show ?thesis
    by (simp add: f truthy_def toggleFavorite_def)
qed

end
